(* ===== verification/Prelude.thy ===== *)
theory Prelude
  imports Main "HOL-Library.AList" "HOL-Library.Char_ord" "HOL-Library.List_Lexorder"
begin

text \<open>
  What every component of the model shares: the error values of the Go code, Go's 64-bit
  integers, the decimal printing and parsing of \<open>fmt\<close> and \<open>strconv\<close>, sorted iteration
  over the keys of a map, and the reachable states of a step relation with the locale
  that turns a preserved predicate into an invariant.
\<close>

named_theorems go_defs \<open>definitions of straight-line operations, unfolded together\<close>

section \<open>Error values\<close>

text \<open>
  \<open>ErrExit\<close> and \<open>ErrReload\<close> are the two sentinel errors of \<open>pkg/buildkit/client.go\<close>.
  \<open>Errorf f as\<close> is \<open>fmt.Errorf(f, as...)\<close>, kept as its format string and its
  arguments; \<open>Wrapf f e\<close> is a call whose format wraps \<open>e\<close> by the verb \<open>%w\<close>, \<open>Errvf f e\<close>
  one that only prints it, by \<open>%v\<close>.
  \<open>ExtErr\<close> is an error made by code outside the repository, \<open>ErrCanceled\<close> the
  \<open>ctx.Err()\<close> of a cancelled context.
\<close>

datatype go_err =
    ErrExit
  | ErrReload
  | ErrCanceled
  | ErrTooLong
  | Errorf string "string list"
  | Wrapf string go_err
  | Errvf string go_err
  | ExtErr string

text \<open>
  \<open>errors.Is\<close>: the error or one it wraps is the target. Only the sentinels are used as
  targets, so comparing values is comparing identities.
\<close>

primrec errors_is :: "go_err \<Rightarrow> go_err \<Rightarrow> bool" where
  "errors_is ErrExit t = (t = ErrExit)"
| "errors_is ErrReload t = (t = ErrReload)"
| "errors_is ErrCanceled t = (t = ErrCanceled)"
| "errors_is ErrTooLong t = (t = ErrTooLong)"
| "errors_is (Errorf f as) t = (t = Errorf f as)"
| "errors_is (Wrapf f e) t = (t = Wrapf f e \<or> errors_is e t)"
| "errors_is (Errvf f e) t = (t = Errvf f e)"
| "errors_is (ExtErr m) t = (t = ExtErr m)"

lemma errors_is_refl [simp]: "errors_is e e"
  by (cases e) auto

text \<open>
  What a call comes to: a value, an error return, or a run-time panic (an index out of
  range, a nil dereference, the close of a closed channel).
\<close>

datatype 'a go_result = Ok 'a | Fail go_err | Panic string

primrec no_panic :: "'a go_result \<Rightarrow> bool" where
  "no_panic (Ok a) = True"
| "no_panic (Fail e) = True"
| "no_panic (Panic m) = False"

section \<open>64-bit integers\<close>

text \<open>
  Go's \<open>int\<close> and \<open>int64\<close> are 64 bits wide on every platform buildg is built for. A value
  is an \<open>int\<close> in the range of \<open>in64\<close>; \<open>wrap64\<close> is what an operation that leaves the
  range does.
\<close>

definition in64 :: "int \<Rightarrow> bool" where
  "in64 x \<longleftrightarrow> - (2 ^ 63) \<le> x \<and> x < 2 ^ 63"

definition in32 :: "int \<Rightarrow> bool" where
  "in32 x \<longleftrightarrow> - (2 ^ 31) \<le> x \<and> x < 2 ^ 31"

definition wrap64 :: "int \<Rightarrow> int" where
  "wrap64 x = (x + 2 ^ 63) mod 2 ^ 64 - 2 ^ 63"

lemma in64_wrap64 [simp]: "in64 (wrap64 x)"
  by (simp add: in64_def wrap64_def)

lemma wrap64_id: "in64 x \<Longrightarrow> wrap64 x = x"
  by (simp add: in64_def wrap64_def)

lemma wrap64_small [simp]: "wrap64 0 = 0" "wrap64 1 = 1"
  by (simp_all add: wrap64_def)

lemma in32_in64: "in32 x \<Longrightarrow> in64 x"
  by (simp add: in32_def in64_def)

section \<open>Decimal printing and parsing\<close>

definition digit_char :: "nat \<Rightarrow> char" where
  "digit_char n = char_of (48 + n)"

fun show_nat :: "nat \<Rightarrow> string" where
  "show_nat n = (if n < 10 then [digit_char n]
                 else show_nat (n div 10) @ [digit_char (n mod 10)])"

declare show_nat.simps [simp del]

text \<open>The verb \<open>%d\<close>.\<close>

definition show_int :: "int \<Rightarrow> string" where
  "show_int i = (if i < 0 then CHR ''-'' # show_nat (nat (- i)) else show_nat (nat i))"

definition is_digit :: "char \<Rightarrow> bool" where
  "is_digit c \<longleftrightarrow> 48 \<le> (of_char c :: nat) \<and> (of_char c :: nat) \<le> 57"

definition digits_value :: "string \<Rightarrow> nat" where
  "digits_value s = foldl (\<lambda>n c. 10 * n + (of_char c - 48)) 0 s"

text \<open>
  \<open>strconv.ParseUint(s, 10, 64)\<close> with the range left to the caller: at least one
  character and digits only. \<open>strconv.ParseInt(s, 10, 64)\<close>: one optional sign, then the
  digits; a value outside the 64-bit range is an error. \<open>None\<close> is \<open>err != nil\<close>.
\<close>

definition parse_digits :: "string \<Rightarrow> nat option" where
  "parse_digits s = (if s \<noteq> [] \<and> list_all is_digit s then Some (digits_value s) else None)"

definition parse_int64 :: "string \<Rightarrow> int option" where
  "parse_int64 s =
     (case s of
        [] \<Rightarrow> None
      | c # cs \<Rightarrow>
          (let neg = (c = CHR ''-'');
               body = (if c = CHR ''-'' \<or> c = CHR ''+'' then cs else s)
           in case parse_digits body of
                None \<Rightarrow> None
              | Some n \<Rightarrow>
                  (if \<not> neg \<and> n \<ge> 2 ^ 63 then None
                   else if neg \<and> n > 2 ^ 63 then None
                   else Some (if neg then - int n else int n))))"

lemma of_char_digit_char: "n < 10 \<Longrightarrow> (of_char (digit_char n) :: nat) = 48 + n"
  by (simp add: digit_char_def)

lemma is_digit_digit_char [simp]: "n < 10 \<Longrightarrow> is_digit (digit_char n)"
  by (simp add: is_digit_def of_char_digit_char)

lemma show_nat_nonempty [simp]: "show_nat n \<noteq> []"
  by (subst show_nat.simps) simp

lemma show_nat_digits: "list_all is_digit (show_nat n)"
proof (induction n rule: show_nat.induct)
  case (1 n)
  then show ?case
    by (subst show_nat.simps) auto
qed

lemma digits_value_snoc:
  "digits_value (s @ [c]) = 10 * digits_value s + (of_char c - 48)"
  by (simp add: digits_value_def)

lemma digits_value_show_nat [simp]: "digits_value (show_nat n) = n"
proof (induction n rule: show_nat.induct)
  case (1 n)
  show ?case
  proof (cases "n < 10")
    case True
    then show ?thesis
      by (subst show_nat.simps) (simp add: digits_value_def of_char_digit_char)
  next
    case False
    with "1.IH" show ?thesis
      by (subst show_nat.simps) (simp add: digits_value_snoc of_char_digit_char)
  qed
qed

lemma parse_digits_show_nat [simp]: "parse_digits (show_nat n) = Some n"
  by (simp add: parse_digits_def show_nat_digits)

lemma show_nat_inject [simp]: "show_nat m = show_nat n \<longleftrightarrow> m = n"
  by (metis digits_value_show_nat)

lemma show_nat_Cons_digit: "show_nat n = c # cs \<Longrightarrow> is_digit c"
  using show_nat_digits [of n] by simp

lemma not_digit_sign [simp]: "\<not> is_digit CHR ''-''" "\<not> is_digit CHR ''+''"
  by (simp_all add: is_digit_def)

lemma show_int_nonempty [simp]: "show_int i \<noteq> []"
  by (simp add: show_int_def)

lemma show_int_inject [simp]: "show_int i = show_int j \<longleftrightarrow> i = j"
proof
  assume eq: "show_int i = show_int j"
  have sign: "show_nat k \<noteq> CHR ''-'' # cs" for k cs
    using show_nat_Cons_digit [of k] not_digit_sign by blast
  show "i = j"
    using eq sign sign [symmetric] by (auto simp: show_int_def split: if_splits)
qed simp

lemma parse_int64_show_nat: "n < 2 ^ 63 \<Longrightarrow> parse_int64 (show_nat n) = Some (int n)"
proof -
  assume "n < 2 ^ 63"
  moreover obtain c cs where s: "show_nat n = c # cs"
    by (cases "show_nat n") auto
  moreover from s have "is_digit c"
    by (rule show_nat_Cons_digit)
  then have "c \<noteq> CHR ''-''" "c \<noteq> CHR ''+''"
    using not_digit_sign by blast+
  ultimately show ?thesis
    using parse_digits_show_nat [of n] by (simp add: parse_int64_def)
qed

lemma parse_int64_show_int: "in64 i \<Longrightarrow> parse_int64 (show_int i) = Some i"
proof (cases "i < 0")
  case True
  assume "in64 i"
  with True have "nat (- i) \<le> 2 ^ 63"
    by (simp add: in64_def)
  with True show ?thesis
    by (simp add: show_int_def parse_int64_def)
next
  case False
  assume "in64 i"
  with False have "nat i < 2 ^ 63"
    by (simp add: in64_def)
  with False show ?thesis
    by (simp add: show_int_def parse_int64_show_nat)
qed

lemma parse_int64_in64: "parse_int64 s = Some i \<Longrightarrow> in64 i"
  by (auto simp: parse_int64_def in64_def Let_def split: list.splits option.splits if_splits)

text \<open>Splitting at the first occurrence of a character.\<close>

lemma split_first:
  assumes "c \<notin> set k"
  shows "takeWhile (\<lambda>x. x \<noteq> c) (k @ c # v) = k" "dropWhile (\<lambda>x. x \<noteq> c) (k @ c # v) = c # v"
proof -
  have "\<And>x. x \<in> set k \<Longrightarrow> x \<noteq> c"
    using assms by blast
  then show "takeWhile (\<lambda>x. x \<noteq> c) (k @ c # v) = k" "dropWhile (\<lambda>x. x \<noteq> c) (k @ c # v) = c # v"
    by (simp_all add: takeWhile_append2 dropWhile_append2)
qed

section \<open>Go maps\<close>

text \<open>
  A Go map is an association list with distinct keys, updated by \<open>AList.update\<close> and
  \<open>AList.delete\<close>; what it holds is \<open>map_of\<close>. The order of the list is never observed:
  where the code ranges over a map, it sorts the keys first or the model takes the
  iteration order as an argument.
\<close>

abbreviation keys_of :: "('k \<times> 'v) list \<Rightarrow> 'k list" where
  "keys_of m \<equiv> map fst m"

definition sorted_keys :: "(string \<times> 'v) list \<Rightarrow> string list" where
  "sorted_keys m = sort (map fst m)"

lemma set_sorted_keys [simp]: "set (sorted_keys m) = dom (map_of m)"
  by (simp add: sorted_keys_def dom_map_of_conv_image_fst)

lemma distinct_sorted_keys [simp]: "distinct (keys_of m) \<Longrightarrow> distinct (sorted_keys m)"
  by (simp add: sorted_keys_def)

text \<open>The sorted keys depend on the contents of the map only, not on its representation.\<close>

lemma sorted_keys_cong:
  assumes "distinct (keys_of m)" "distinct (keys_of m')" "map_of m = map_of m'"
  shows "sorted_keys m = sorted_keys m'"
proof (rule sorted_distinct_set_unique)
  show "set (sorted_keys m) = set (sorted_keys m')"
    using assms by simp
qed (use assms in \<open>simp_all add: sorted_keys_def\<close>)

text \<open>The entries of an enumeration whose value passes \<open>g\<close>, with what \<open>g\<close> makes of it.\<close>

fun select :: "('v \<Rightarrow> 'w option) \<Rightarrow> ('k \<times> 'v) list \<Rightarrow> ('k \<times> 'w) list" where
  "select g [] = []"
| "select g ((k, v) # es) = (case g v of None \<Rightarrow> select g es | Some w \<Rightarrow> (k, w) # select g es)"

lemma select_keys: "set (keys_of (select g es)) \<subseteq> set (keys_of es)"
  by (induction g es rule: select.induct) (auto split: option.splits)

lemma distinct_select: "distinct (keys_of es) \<Longrightarrow> distinct (keys_of (select g es))"
proof (induction g es rule: select.induct)
  case (2 g k v es)
  then show ?case
    using select_keys [of g es] by (auto split: option.splits)
qed simp

lemma map_of_select:
  "distinct (keys_of es) \<Longrightarrow> map_of (select g es) k = Option.bind (map_of es k) g"
proof (induction g es rule: select.induct)
  case (2 g k' v es)
  have "k' \<notin> set (keys_of (select g es))"
    using 2(3) select_keys [of g es] by auto
  then have "map_of (select g es) k' = None"
    by (simp add: map_of_eq_None_iff)
  with 2 show ?case
    by (auto split: option.splits)
qed simp

lemma AList_update_new: "k \<notin> set (keys_of m) \<Longrightarrow> AList.update k v m = m @ [(k, v)]"
  by (induction m) auto

lemma fold_update_select:
  "distinct (keys_of hit @ keys_of es) \<Longrightarrow>
   fold (\<lambda>(k, v) hit. case g v of None \<Rightarrow> hit | Some w \<Rightarrow> AList.update k w hit) es hit =
   hit @ select g es"
proof (induction g es arbitrary: hit rule: select.induct)
  case (2 g k v es)
  have "k \<notin> set (keys_of hit)"
    using 2(3) by auto
  moreover have "distinct (keys_of hit @ keys_of es)"
    and "distinct (keys_of (hit @ [(k, w)]) @ keys_of es)" for w
    using 2(3) by auto
  ultimately show ?case
    using "2.IH"(1) [of hit] "2.IH"(2) [of _ "hit @ [(k, _)]"]
    by (cases "g v") (simp_all add: AList_update_new)
qed simp

section \<open>Reachable states\<close>

inductive reach :: "('s \<Rightarrow> bool) \<Rightarrow> ('s \<Rightarrow> 's \<Rightarrow> bool) \<Rightarrow> 's \<Rightarrow> bool"
  for init :: "'s \<Rightarrow> bool" and step :: "'s \<Rightarrow> 's \<Rightarrow> bool" where
  reach_init: "init s \<Longrightarrow> reach init step s"
| reach_step: "reach init step s \<Longrightarrow> step s t \<Longrightarrow> reach init step t"

lemma reach_steps: "step\<^sup>*\<^sup>* s t \<Longrightarrow> reach init step s \<Longrightarrow> reach init step t"
  by (induction rule: rtranclp_induct) (auto intro: reach_step)

text \<open>
  The contract between a component's step relation and what its clients use: a predicate
  that holds initially and is kept by every step holds in every reachable state.
\<close>

locale inv_system =
  fixes init :: "'s \<Rightarrow> bool"
    and step :: "'s \<Rightarrow> 's \<Rightarrow> bool"
    and inv :: "'s \<Rightarrow> bool"
  assumes inv_init: "init s \<Longrightarrow> inv s"
    and inv_step: "inv s \<Longrightarrow> step s t \<Longrightarrow> inv t"
begin

lemma reach_inv: "reach init step s \<Longrightarrow> inv s"
  by (induction rule: reach.induct) (auto intro: inv_init inv_step)

lemma steps_inv: "step\<^sup>*\<^sup>* s t \<Longrightarrow> inv s \<Longrightarrow> inv t"
  by (induction rule: rtranclp_induct) (auto intro: inv_step)

end

text \<open>
  A step relation that implements a specification: read through \<open>abs\<close>, every step from a state
  of the invariant is a step of the specification or changes nothing, so every reachable
  state reads as a reachable one.
\<close>

locale refines = inv_system init step inv
  for init :: "'s \<Rightarrow> bool" and step :: "'s \<Rightarrow> 's \<Rightarrow> bool" and inv :: "'s \<Rightarrow> bool" +
  fixes ainit :: "'a \<Rightarrow> bool"
    and astep :: "'a \<Rightarrow> 'a \<Rightarrow> bool"
    and abs :: "'s \<Rightarrow> 'a"
  assumes abs_init: "init s \<Longrightarrow> ainit (abs s)"
    and abs_step: "inv s \<Longrightarrow> step s t \<Longrightarrow> abs t = abs s \<or> astep (abs s) (abs t)"
begin

lemma reach_abs: "reach init step s \<Longrightarrow> reach ainit astep (abs s)"
proof (induction rule: reach.induct)
  case (reach_step s t)
  then show ?case
    using abs_step [OF reach_inv] by (metis reach.reach_step)
qed (simp add: abs_init reach.reach_init)

end

end
