(* ===== verification/Types.thy ===== *)
theory Types
  imports Prelude
begin

text \<open>
  The data the components exchange: source locations (\<open>pkg/buildkit/location.go\<close> and the
  BuildKit messages it points to), the build operation of a step, and the status a paused
  step registers with the debugger (\<open>pkg/buildkit/controller.go\<close>). Of the protobuf
  messages only the fields that buildg reads are kept. Opaque pointers that buildg only
  hands on are numbers. Messages come decoded from BuildKit, so their sub-messages are
  present: a range has both its positions, an operation of kind exec has its exec part.
\<close>

section \<open>Source locations\<close>

text \<open>
  A \<open>*pb.SourceInfo\<close> is a pointer and is compared as one (it is a key of a map in
  \<open>list.go\<close>); \<open>si_addr\<close> is its identity.
\<close>

record source_info =
  si_addr :: nat
  si_filename :: string
  si_data :: string

record pb_range =
  start_line :: int
  end_line :: int

record location =
  loc_source :: source_info
  loc_ranges :: "pb_range list"

text \<open>The line numbers of a range are 32 bits wide.\<close>

definition range_ok :: "pb_range \<Rightarrow> bool" where
  "range_ok r \<longleftrightarrow> in32 (start_line r) \<and> in32 (end_line r)"

text \<open>A line is covered by a range.\<close>

definition covers :: "pb_range \<Rightarrow> int \<Rightarrow> bool" where
  "covers r l \<longleftrightarrow> start_line r \<le> l \<and> l \<le> end_line r"

section \<open>Operations\<close>

text \<open>The enumerations of BuildKit: the values that the code names, and the others by number.\<close>

datatype mount_type = MountType_BIND | Other_Mount int
datatype net_mode = NetMode_NONE | Other_Net int
datatype security_mode = SecurityMode_SANDBOX | Other_Security int

record pb_mount =
  mnt_input :: int
  mnt_output :: int
  mnt_selector :: string
  mnt_dest :: string
  mnt_readonly :: bool
  mnt_type :: mount_type
  mnt_cache_opt :: nat
  mnt_secret_opt :: nat
  mnt_ssh_opt :: nat

record exec_op =
  ex_mounts :: "pb_mount list"
  ex_network :: net_mode
  ex_security :: security_mode
  ex_cwd :: string
  ex_env :: "string list"
  ex_user :: string

datatype op_kind = Op_Exec exec_op | Op_Other

record pb_op =
  op_kind_of :: op_kind
  op_platform :: nat
  op_constraints :: nat

section \<open>The status of a paused step\<close>

record registered_status =
  rs_name :: string
  rs_debug_id :: string
  rs_input_ids :: "string list"
  rs_mount_ids :: "string list"
  rs_vertex :: string
  rs_op :: pb_op
  rs_err :: "go_err option"

end
