(* ===== verification/Breakpoints.thy ===== *)
theory Breakpoints
  imports Types
begin

text \<open>
  The breakpoint store and the two kinds of breakpoints of
  \<open>pkg/buildkit/breakpoint.go\<close>. The store is specified by the locale \<open>breakpoint_store\<close>
  as a finite map with generated keys; the interpretation \<open>bps\<close> shows that the Go code
  keeps that contract, and its lemmas are what the command handlers and the DAP server
  rely on.
\<close>

section \<open>Breakpoints\<close>

text \<open>
  The interface \<open>Breakpoint\<close> has the implementations \<open>onFailBreakpoint\<close> and
  \<open>lineBreakpoint\<close>. A description is text, or the text with the error that was caught
  (which prints as \<open>caught error %v\<close>).
\<close>

datatype breakpoint = OnFail | LineBp string int

datatype description = Text string | CaughtError "go_err option"

record breakpoint_info =
  bi_description :: description
  bi_hits :: "location list"

definition NewOnFailBreakpoint :: breakpoint where
  "NewOnFailBreakpoint = OnFail"

definition NewLineBreakpoint :: "string \<Rightarrow> int \<Rightarrow> breakpoint" where
  "NewLineBreakpoint filename line = LineBp filename line"

primrec bp_String :: "breakpoint \<Rightarrow> string" where
  "bp_String OnFail = ''breaks on fail''"
| "bp_String (LineBp filename line) = ''line: '' @ filename @ '':'' @ show_int line"

primrec IsMarked :: "breakpoint \<Rightarrow> source_info \<Rightarrow> int \<Rightarrow> bool" where
  "IsMarked OnFail source line = False"
| "IsMarked (LineBp filename l) source line = (si_filename source = filename \<and> line = l)"

text \<open>The two nested loops of \<open>lineBreakpoint.isTarget\<close> over \<open>(found, hits)\<close>.\<close>

primrec range_loop ::
  "source_info \<Rightarrow> int \<Rightarrow> pb_range list \<Rightarrow> bool \<times> location list \<Rightarrow> bool \<times> location list" where
  "range_loop src l [] st = st"
| "range_loop src l (r # rs) st =
     range_loop src l rs
       (if start_line r \<le> l \<and> l \<le> end_line r
        then (True, snd st @ [\<lparr>loc_source = src, loc_ranges = [r]\<rparr>])
        else st)"

primrec loc_loop ::
  "string \<Rightarrow> int \<Rightarrow> location list \<Rightarrow> bool \<times> location list \<Rightarrow> bool \<times> location list" where
  "loc_loop filename l [] st = st"
| "loc_loop filename l (loc # locs) st =
     loc_loop filename l locs
       (if si_filename (loc_source loc) \<noteq> filename then st
        else range_loop (loc_source loc) l (loc_ranges loc) st)"

text \<open>\<open>isTarget\<close> of both kinds: whether to stop, the description, the hit locations.\<close>

primrec isTarget ::
  "breakpoint \<Rightarrow> registered_status \<Rightarrow> location list \<Rightarrow> bool \<times> description \<times> location list" where
  "isTarget OnFail status locs = (rs_err status \<noteq> None, CaughtError (rs_err status), locs)"
| "isTarget (LineBp filename l) status locs =
     (case loc_loop filename l locs (False, []) of
        (found, hits) \<Rightarrow>
          if found then (True, Text (''reached '' @ bp_String (LineBp filename l)), hits)
          else (False, Text [], []))"

definition line_hits :: "string \<Rightarrow> int \<Rightarrow> location list \<Rightarrow> location list" where
  "line_hits filename l locs =
     concat (map (\<lambda>loc. map (\<lambda>r. \<lparr>loc_source = loc_source loc, loc_ranges = [r]\<rparr>)
                            (filter (\<lambda>r. covers r l) (loc_ranges loc)))
                 (filter (\<lambda>loc. si_filename (loc_source loc) = filename) locs))"

lemma range_loop_eq:
  "range_loop src l rs (b, hs) =
     (b \<or> (\<exists>r \<in> set rs. covers r l),
      hs @ map (\<lambda>r. \<lparr>loc_source = src, loc_ranges = [r]\<rparr>) (filter (\<lambda>r. covers r l) rs))"
  by (induction rs arbitrary: b hs) (auto simp: covers_def)

lemma loc_loop_eq:
  "loc_loop filename l locs (b, hs) =
     (b \<or> (\<exists>loc \<in> set locs. si_filename (loc_source loc) = filename \<and>
              (\<exists>r \<in> set (loc_ranges loc). covers r l)),
      hs @ line_hits filename l locs)"
  by (induction locs arbitrary: b hs) (auto simp: line_hits_def range_loop_eq)

lemma line_hits_empty_iff:
  "line_hits filename l locs = [] \<longleftrightarrow>
     \<not> (\<exists>loc \<in> set locs. si_filename (loc_source loc) = filename \<and>
           (\<exists>r \<in> set (loc_ranges loc). covers r l))"
  by (auto simp: line_hits_def filter_empty_conv)

text \<open>A line breakpoint is hit exactly when some range of its file covers its line.\<close>

lemma isTarget_line:
  "isTarget (LineBp filename l) status locs =
     (if line_hits filename l locs = [] then (False, Text [], [])
      else (True, Text (''reached line: '' @ filename @ '':'' @ show_int l),
            line_hits filename l locs))"
  by (auto simp: loc_loop_eq line_hits_empty_iff)

section \<open>The store\<close>

text \<open>
  \<open>bp_map = None\<close> is the nil map that \<open>ClearAll\<close> leaves: it can be read, and \<open>Add\<close> makes
  a map before it writes.
\<close>

record breakpoints =
  bp_map :: "(string \<times> breakpoint) list option"
  bp_index :: int

definition map_entries :: "breakpoints \<Rightarrow> (string \<times> breakpoint) list" where
  "map_entries b = (case bp_map b of None \<Rightarrow> [] | Some m \<Rightarrow> m)"

definition NewBreakpoints :: breakpoints where
  "NewBreakpoints = \<lparr>bp_map = Some [], bp_index = 0\<rparr>"

definition Add :: "breakpoints \<Rightarrow> string \<Rightarrow> breakpoint \<Rightarrow> breakpoints \<times> (go_err + string)" where
  "Add b key bp =
     (let m = map_entries b;
          b1 = b\<lparr>bp_map := Some m\<rparr>;
          (b2, key') = (if key = [] then (b1\<lparr>bp_index := wrap64 (bp_index b1 + 1)\<rparr>, show_int (bp_index b1))
                        else (b1, key))
      in case map_of m key' of
           Some _ \<Rightarrow> (b2, Inl (Errorf ''breakpoint %q already exists: %v'' [key']))
         | None \<Rightarrow> (b2\<lparr>bp_map := Some (AList.update key' bp m)\<rparr>, Inr key'))"

definition Get :: "breakpoints \<Rightarrow> string \<Rightarrow> breakpoint option" where
  "Get b key = map_of (map_entries b) key"

definition Clear :: "breakpoints \<Rightarrow> string \<Rightarrow> breakpoints" where
  "Clear b key = b\<lparr>bp_map := map_option (AList.delete key) (bp_map b)\<rparr>"

definition ClearAll :: "breakpoints \<Rightarrow> breakpoints" where
  "ClearAll b = b\<lparr>bp_map := None, bp_index := 0\<rparr>"

text \<open>
  \<open>ForEach\<close> calls \<open>f\<close> on the entries in the order of their keys until it returns false.
  The callback carries the state it captures; no callback of the program changes the
  store, so every key of the snapshot is present when it is looked up.
\<close>

primrec foreach_loop ::
  "(string \<Rightarrow> breakpoint \<Rightarrow> 's \<Rightarrow> bool \<times> 's) \<Rightarrow> (string \<times> breakpoint) list \<Rightarrow> string list \<Rightarrow> 's \<Rightarrow> 's" where
  "foreach_loop f m [] s = s"
| "foreach_loop f m (k # ks) s =
     (case map_of m k of
        None \<Rightarrow> foreach_loop f m ks s
      | Some bp \<Rightarrow> (case f k bp s of (cont, s') \<Rightarrow> if cont then foreach_loop f m ks s' else s'))"

definition ForEach ::
  "breakpoints \<Rightarrow> (string \<Rightarrow> breakpoint \<Rightarrow> 's \<Rightarrow> bool \<times> 's) \<Rightarrow> 's \<Rightarrow> 's" where
  "ForEach b f s = foreach_loop f (map_entries b) (sorted_keys (map_entries b)) s"

text \<open>The entries in the order in which \<open>ForEach\<close> visits them.\<close>

definition bp_entries :: "breakpoints \<Rightarrow> (string \<times> breakpoint) list" where
  "bp_entries b = map (\<lambda>k. (k, the (Get b k))) (sorted_keys (map_entries b))"

section \<open>The contract of the store\<close>

text \<open>
  What the clients of the store may assume: a finite map from keys to breakpoints, with
  keys generated in order for the additions without a key, never one in use, and an
  enumeration in key order.
\<close>

locale breakpoint_store =
  fixes inv :: "'s \<Rightarrow> bool"
    and next_id :: "'s \<Rightarrow> int"
    and lookup :: "'s \<Rightarrow> string \<Rightarrow> 'v option"
    and add :: "'s \<Rightarrow> string \<Rightarrow> 'v \<Rightarrow> 's \<times> (go_err + string)"
    and clear :: "'s \<Rightarrow> string \<Rightarrow> 's"
    and clear_all :: "'s \<Rightarrow> 's"
    and entries :: "'s \<Rightarrow> (string \<times> 'v) list"
  assumes add_anon: "inv s \<Longrightarrow> next_id s < 2 ^ 63 - 1 \<Longrightarrow>
      \<exists>s'. add s [] v = (s', Inr (show_int (next_id s))) \<and> inv s' \<and>
           next_id s' = next_id s + 1 \<and> lookup s' = (lookup s)(show_int (next_id s) \<mapsto> v)"
    and add_named: "inv s \<Longrightarrow> k \<noteq> [] \<Longrightarrow> (\<forall>i \<ge> 0. k \<noteq> show_int i) \<Longrightarrow> lookup s k = None \<Longrightarrow>
      \<exists>s'. add s k v = (s', Inr k) \<and> inv s' \<and> next_id s' = next_id s \<and> lookup s' = (lookup s)(k \<mapsto> v)"
    and add_taken: "inv s \<Longrightarrow> k \<noteq> [] \<Longrightarrow> lookup s k \<noteq> None \<Longrightarrow>
      \<exists>s' e. add s k v = (s', Inl e) \<and> inv s' \<and> next_id s' = next_id s \<and> lookup s' = lookup s"
    and inv_clear: "inv s \<Longrightarrow> inv (clear s k)"
    and lookup_clear: "inv s \<Longrightarrow> lookup (clear s k) = (lookup s)(k := None)"
    and next_id_clear: "next_id (clear s k) = next_id s"
    and inv_clear_all: "inv (clear_all s)"
    and lookup_clear_all: "lookup (clear_all s) = Map.empty"
    and next_id_clear_all: "next_id (clear_all s) = 0"
    and fresh: "inv s \<Longrightarrow> 0 \<le> i \<Longrightarrow> next_id s \<le> i \<Longrightarrow> lookup s (show_int i) = None"
    and next_id_nonneg: "inv s \<Longrightarrow> 0 \<le> next_id s"
    and entries_sorted: "sorted (map fst (entries s))"
    and entries_distinct: "inv s \<Longrightarrow> distinct (map fst (entries s))"
    and entries_lookup: "inv s \<Longrightarrow> map_of (entries s) = lookup s"

text \<open>Adding a list of breakpoints without keys, one after the other.\<close>

primrec add_all ::
  "('s \<Rightarrow> string \<Rightarrow> 'v \<Rightarrow> 's \<times> (go_err + string)) \<Rightarrow> 's \<Rightarrow> 'v list \<Rightarrow> 's \<times> (go_err + string) list" where
  "add_all add s [] = (s, [])"
| "add_all add s (v # vs) =
     (case add s [] v of (s', r) \<Rightarrow> (case add_all add s' vs of (s'', rs) \<Rightarrow> (s'', r # rs)))"

context breakpoint_store
begin

lemma add_anon_fresh: "inv s \<Longrightarrow> lookup s (show_int (next_id s)) = None"
  by (simp add: fresh next_id_nonneg)

lemma lookup_after_clear [simp]: "inv s \<Longrightarrow> lookup (clear s k) k = None"
  by (simp add: lookup_clear)

text \<open>The key of a removed breakpoint is not generated again.\<close>

lemma cleared_key_not_reused:
  assumes "inv s" "next_id s < 2 ^ 63 - 1" "lookup s (show_int i) \<noteq> None" "0 \<le> i"
  shows "snd (add (clear s (show_int i)) [] v) \<noteq> Inr (show_int i)"
  using assms add_anon [of "clear s (show_int i)" v] fresh [of s i]
  by (auto simp: inv_clear next_id_clear)

lemma add_all_anon:
  "inv s \<Longrightarrow> next_id s + int (length vs) < 2 ^ 63 \<Longrightarrow>
   \<exists>s'. add_all add s vs =
          (s', map (\<lambda>i. Inr (show_int (next_id s + int i))) [0..<length vs]) \<and>
        inv s' \<and> next_id s' = next_id s + int (length vs) \<and>
        (\<forall>j < length vs. lookup s' (show_int (next_id s + int j)) = Some (vs ! j)) \<and>
        (\<forall>k. (\<forall>j < length vs. k \<noteq> show_int (next_id s + int j)) \<longrightarrow> lookup s' k = lookup s k)"
proof (induction vs arbitrary: s)
  case Nil
  then show ?case by simp
next
  case (Cons v vs)
  obtain s1 where s1: "add s [] v = (s1, Inr (show_int (next_id s)))" "inv s1"
      "next_id s1 = next_id s + 1" "lookup s1 = (lookup s)(show_int (next_id s) \<mapsto> v)"
    using add_anon [of s v] Cons.prems by auto
  obtain s' where s': "add_all add s1 vs =
          (s', map (\<lambda>i. Inr (show_int (next_id s1 + int i))) [0..<length vs])" "inv s'"
      "next_id s' = next_id s1 + int (length vs)"
      "\<forall>j < length vs. lookup s' (show_int (next_id s1 + int j)) = Some (vs ! j)"
      "\<forall>k. (\<forall>j < length vs. k \<noteq> show_int (next_id s1 + int j)) \<longrightarrow> lookup s' k = lookup s1 k"
    using Cons.IH [of s1] Cons.prems s1 by auto
  have keys: "map (\<lambda>i. Inr (show_int (next_id s + int i))) [0..<length (v # vs)] =
      Inr (show_int (next_id s)) # map (\<lambda>i. Inr (show_int (next_id s1 + int i))) [0..<length vs]"
    by (simp add: upt_conv_Cons map_Suc_upt [symmetric] s1 ac_simps del: upt_Suc)
  have hit: "lookup s' (show_int (next_id s + int j)) = Some ((v # vs) ! j)" if "j < length (v # vs)" for j
  proof (cases j)
    case 0
    with s1 s' show ?thesis by simp
  next
    case (Suc i)
    with that s'(4) s1(3) show ?thesis by (auto simp: ac_simps)
  qed
  have miss: "lookup s' k = lookup s k"
    if k: "\<forall>j < length (v # vs). k \<noteq> show_int (next_id s + int j)" for k
  proof -
    have "k \<noteq> show_int (next_id s1 + int j)" if "j < length vs" for j
      using k [rule_format, of "Suc j"] that s1(3) by (auto simp: ac_simps)
    moreover have "k \<noteq> show_int (next_id s)"
      using k [rule_format, of 0] by simp
    ultimately show ?thesis
      using s'(5) s1(4) by simp
  qed
  have ret: "add_all add s (v # vs) =
      (s', map (\<lambda>i. Inr (show_int (next_id s + int i))) [0..<length (v # vs)])"
    unfolding keys using s1(1) s'(1) by simp
  show ?case
  proof (intro exI conjI)
    show "add_all add s (v # vs) =
      (s', map (\<lambda>i. Inr (show_int (next_id s + int i))) [0..<length (v # vs)])"
      by (rule ret)
    show "next_id s' = next_id s + int (length (v # vs))"
      using s'(3) s1(3) by simp
  qed (use s'(2) hit miss in blast)+
qed

end

section \<open>The Go store keeps the contract\<close>

definition bps_inv :: "breakpoints \<Rightarrow> bool" where
  "bps_inv b \<longleftrightarrow> distinct (keys_of (map_entries b)) \<and> 0 \<le> bp_index b \<and>
     (\<forall>i \<ge> 0. Get b (show_int i) \<noteq> None \<longrightarrow> i < bp_index b)"

lemmas store_defs = Add_def Get_def Clear_def ClearAll_def map_entries_def Let_def

lemma bps_inv_distinct: "bps_inv b \<Longrightarrow> distinct (keys_of (map_entries b))"
  by (simp add: bps_inv_def)

lemma map_of_AList_update [simp]: "map_of (AList.update k v m) = (map_of m)(k \<mapsto> v)"
  by (simp add: AList.update_conv')

lemma map_of_AList_delete [simp]: "map_of (AList.delete k m) = (map_of m)(k := None)"
  by (simp add: AList.delete_conv')

lemma Get_Clear: "Get (Clear b k) = (Get b)(k := None)"
  by (auto simp: store_defs fun_eq_iff split: option.splits)

lemma bps_inv_New [simp]: "bps_inv NewBreakpoints"
  by (simp add: bps_inv_def NewBreakpoints_def store_defs)

lemma map_entries_Clear: "map_entries (Clear b k) = AList.delete k (map_entries b)"
  by (simp add: Clear_def map_entries_def split: option.split)

lemma bp_index_Clear [simp]: "bp_index (Clear b k) = bp_index b"
  by (simp add: Clear_def)

lemma bp_index_New [simp]: "bp_index NewBreakpoints = 0"
  by (simp add: NewBreakpoints_def)

lemma bps_inv_Clear: "bps_inv b \<Longrightarrow> bps_inv (Clear b k)"
  by (simp add: bps_inv_def Get_Clear map_entries_Clear distinct_delete)

lemma Add_named:
  "key \<noteq> [] \<Longrightarrow> Get b key = None \<Longrightarrow>
   Add b key bp = (b\<lparr>bp_map := Some (AList.update key bp (map_entries b))\<rparr>, Inr key)"
  by (simp add: store_defs)

lemma Add_taken:
  "key \<noteq> [] \<Longrightarrow> Get b key \<noteq> None \<Longrightarrow>
   Add b key bp = (b\<lparr>bp_map := Some (map_entries b)\<rparr>,
                   Inl (Errorf ''breakpoint %q already exists: %v'' [key]))"
  by (auto simp: store_defs)

lemma Add_anon:
  "Get b (show_int (bp_index b)) = None \<Longrightarrow>
   Add b [] bp = (\<lparr>bp_map = Some (AList.update (show_int (bp_index b)) bp (map_entries b)),
                   bp_index = wrap64 (bp_index b + 1)\<rparr>, Inr (show_int (bp_index b)))"
  by (cases b) (simp add: store_defs)

lemma Get_update:
  "Get (b\<lparr>bp_map := Some (AList.update k v (map_entries b))\<rparr>) = (Get b)(k \<mapsto> v)"
  by (simp add: Get_def map_entries_def fun_eq_iff)

lemma Get_simps [simp]:
  "Get \<lparr>bp_map = Some m, bp_index = i\<rparr> = map_of m"
  "Get (b\<lparr>bp_map := Some m\<rparr>) = map_of m"
  "map_of (map_entries b) = Get b"
  by (rule ext, simp add: Get_def map_entries_def)+

lemma Get_None_fresh: "bps_inv b \<Longrightarrow> 0 \<le> i \<Longrightarrow> bp_index b \<le> i \<Longrightarrow> Get b (show_int i) = None"
  unfolding bps_inv_def by (meson leD)

lemma map_entries_simps [simp]:
  "map_entries \<lparr>bp_map = Some m, bp_index = i\<rparr> = m"
  "map_entries (b\<lparr>bp_map := Some m\<rparr>) = m"
  by (simp_all add: map_entries_def)

lemma ClearAll_simps [simp]:
  "map_entries (ClearAll b) = []" "bp_index (ClearAll b) = 0" "Get (ClearAll b) = Map.empty"
  by (simp_all add: ClearAll_def map_entries_def Get_def fun_eq_iff)

lemma bps_inv_ClearAll [simp]: "bps_inv (ClearAll b)"
  by (simp add: bps_inv_def)

lemma bps_inv_index: "bps_inv b \<Longrightarrow> 0 \<le> bp_index b"
  by (simp add: bps_inv_def)

lemma bps_inv_update:
  assumes "bps_inv b"
  shows "bps_inv \<lparr>bp_map = Some (AList.update (show_int (bp_index b)) v (map_entries b)),
                  bp_index = bp_index b + 1\<rparr>"
proof -
  have "i < bp_index b + 1"
    if "0 \<le> i" "((Get b)(show_int (bp_index b) \<mapsto> v)) (show_int i) \<noteq> None" for i
    using that assms by (cases "i = bp_index b") (auto simp: bps_inv_def)
  with assms show ?thesis
    unfolding bps_inv_def by (simp add: distinct_update)
qed

lemma entries_keys: "map fst (bp_entries b) = sorted_keys (map_entries b)"
  by (simp add: bp_entries_def comp_def)

lemma entries_map_of: "map_of (bp_entries b) = Get b"
proof
  fix k
  have "map_of (bp_entries b) k =
        (if k \<in> set (sorted_keys (map_entries b)) then Some (the (Get b k)) else None)"
    by (auto simp: bp_entries_def map_of_map_restrict restrict_map_def)
  then show "map_of (bp_entries b) k = Get b k"
    by (auto simp: domIff)
qed

interpretation bps: breakpoint_store bps_inv bp_index Get Add Clear ClearAll bp_entries
proof
  fix s :: breakpoints and v :: breakpoint
  assume "bps_inv s" and lt: "bp_index s < 2 ^ 63 - 1"
  moreover from this have "Get s (show_int (bp_index s)) = None"
    by (simp add: Get_None_fresh bps_inv_def)
  moreover have "wrap64 (bp_index s + 1) = bp_index s + 1"
    using \<open>bps_inv s\<close> lt by (intro wrap64_id) (simp add: in64_def bps_inv_def)
  ultimately show "\<exists>s'. Add s [] v = (s', Inr (show_int (bp_index s))) \<and> bps_inv s' \<and>
      bp_index s' = bp_index s + 1 \<and> Get s' = (Get s)(show_int (bp_index s) \<mapsto> v)"
    using bps_inv_update [of s v] by (simp add: Add_anon fun_eq_iff)
next
  fix s :: breakpoints and k :: string and v :: breakpoint
  assume "bps_inv s" "k \<noteq> []" "\<forall>i \<ge> 0. k \<noteq> show_int i" "Get s k = None"
  then show "\<exists>s'. Add s k v = (s', Inr k) \<and> bps_inv s' \<and> bp_index s' = bp_index s \<and>
      Get s' = (Get s)(k \<mapsto> v)"
    by (auto simp: Add_named bps_inv_def distinct_update)
next
  fix s :: breakpoints and k :: string and v :: breakpoint
  assume "bps_inv s" "k \<noteq> []" "Get s k \<noteq> None"
  then show "\<exists>s' e. Add s k v = (s', Inl e) \<and> bps_inv s' \<and> bp_index s' = bp_index s \<and> Get s' = Get s"
    by (auto simp: Add_taken bps_inv_def)
next
  fix s :: breakpoints
  show "sorted (map fst (bp_entries s))"
    by (simp add: entries_keys sorted_keys_def)
qed (simp_all add: Get_Clear bps_inv_Clear entries_map_of Get_None_fresh entries_keys bps_inv_index bps_inv_distinct)

section \<open>Iteration\<close>

lemma sorted_key_present: "k \<in> set (sorted_keys (map_entries b)) \<Longrightarrow> \<exists>bp. Get b k = Some bp"
  by (simp add: domIff)

text \<open>A callback that always asks for more folds over the entries in key order.\<close>

lemma ForEach_fold:
  assumes "\<And>k bp s. f k bp s = (True, g k bp s)"
  shows "ForEach b f s = fold (\<lambda>(k, bp). g k bp) (bp_entries b) s"
proof -
  have "foreach_loop f (map_entries b) ks s =
        fold (\<lambda>(k, bp). g k bp) (map (\<lambda>k. (k, the (Get b k))) ks) s"
    if "set ks \<subseteq> set (sorted_keys (map_entries b))" for ks
    using that sorted_key_present [of _ b] by (induction ks arbitrary: s) (fastforce simp: assms)+
  then show ?thesis
    by (simp add: ForEach_def bp_entries_def)
qed

text \<open>A callback that stops at the first entry with a property finds whether there is one.\<close>

lemma ForEach_find:
  assumes "\<And>k bp s. f k bp s = (if P bp then (False, v) else (True, s))"
  shows "ForEach b f s = (if \<exists>k bp. Get b k = Some bp \<and> P bp then v else s)"
proof -
  have "foreach_loop f (map_entries b) ks s =
        (if \<exists>k \<in> set ks. \<exists>bp. Get b k = Some bp \<and> P bp then v else s)"
    if "set ks \<subseteq> set (sorted_keys (map_entries b))" for ks
    using that sorted_key_present [of _ b] by (induction ks) (fastforce simp: assms)+
  from this [OF subset_refl] show ?thesis
    unfolding ForEach_def by (auto simp: domIff)
qed

text \<open>What is visited depends on the contents of the store only.\<close>

lemma ForEach_cong:
  assumes "bps_inv b" "bps_inv b'" "Get b = Get b'"
  shows "ForEach b f s = ForEach b' f s"
proof -
  have "sorted_keys (map_entries b) = sorted_keys (map_entries b')"
    using assms by (intro sorted_keys_cong) (simp_all add: bps_inv_distinct)
  moreover have "foreach_loop f (map_entries b) ks s = foreach_loop f (map_entries b') ks s" for ks
    using assms(3) by (induction ks arbitrary: s) (auto split: option.splits prod.splits)
  ultimately show ?thesis
    by (simp add: ForEach_def)
qed

section \<open>Histories of the store\<close>

text \<open>
  The operations the program performs on a store: adding the on-fail breakpoint under its
  name, adding a line breakpoint under a generated key, removing one, removing all.
\<close>

datatype store_op = AddOnFail | AddLine string int | ClearKey string | ClearEvery

primrec store_step :: "breakpoints \<Rightarrow> store_op \<Rightarrow> breakpoints" where
  "store_step b AddOnFail = fst (Add b ''on-fail'' NewOnFailBreakpoint)"
| "store_step b (AddLine filename l) = fst (Add b [] (NewLineBreakpoint filename l))"
| "store_step b (ClearKey k) = Clear b k"
| "store_step b ClearEvery = ClearAll b"

definition store_run :: "breakpoints \<Rightarrow> store_op list \<Rightarrow> breakpoints" where
  "store_run = foldl store_step"

lemma show_int_not_on_fail [simp]: "''on-fail'' \<noteq> show_int i" "show_int i \<noteq> ''on-fail''"
proof -
  show "''on-fail'' \<noteq> show_int i"
  proof
    assume eq: "''on-fail'' = show_int i"
    show False
    proof (cases "i < 0")
      case True
      with eq show ?thesis by (simp add: show_int_def)
    next
      case False
      with eq have "show_nat (nat i) = CHR ''o'' # ''n-fail''"
        by (simp add: show_int_def)
      then have "is_digit CHR ''o''"
        by (rule show_nat_Cons_digit)
      then show ?thesis
        by (simp add: is_digit_def)
    qed
  qed
  then show "show_int i \<noteq> ''on-fail''"
    by simp
qed

lemma store_step_inv:
  assumes "bps_inv b" "bp_index b < 2 ^ 63 - 1"
  shows "bps_inv (store_step b op) \<and> bp_index (store_step b op) \<le> bp_index b + 1"
proof (cases op)
  case AddOnFail
  then show ?thesis
    using assms bps.add_named [of b "''on-fail''" OnFail] bps.add_taken [of b "''on-fail''" OnFail]
    by (cases "Get b ''on-fail''") (auto simp: NewOnFailBreakpoint_def)
next
  case (AddLine filename l)
  then show ?thesis
    using assms bps.add_anon [of b "LineBp filename l"] by (auto simp: NewLineBreakpoint_def)
qed (use assms in \<open>auto simp: bps_inv_Clear bps_inv_index\<close>)

lemma store_run_inv:
  "bps_inv b \<Longrightarrow> bp_index b + int (length ops) < 2 ^ 63 \<Longrightarrow>
   bps_inv (store_run b ops) \<and> bp_index (store_run b ops) \<le> bp_index b + int (length ops)"
proof (induction ops arbitrary: b)
  case Nil
  then show ?case by (simp add: store_run_def)
next
  case (Cons op ops)
  have "bps_inv (store_step b op)" and le: "bp_index (store_step b op) \<le> bp_index b + 1"
    using store_step_inv [of b op] Cons.prems by auto
  with Cons.IH [of "store_step b op"] Cons.prems
  have "bps_inv (store_run (store_step b op) ops)"
    "bp_index (store_run (store_step b op) ops) \<le> bp_index (store_step b op) + int (length ops)"
    by auto
  with le show ?case
    by (simp add: store_run_def)
qed

lemmas store_inv = store_step_inv store_run_inv bps_inv_New bps_inv_ClearAll bps_inv_Clear

section \<open>Properties\<close>

text \<open>
  C33. After any history of fewer than \<open>2^63 - 1\<close> operations the store is a map with
  distinct keys, and setting a line breakpoint then succeeds: it gets the next number as
  its key, that key was not in use, the breakpoint is found under it, and every other
  breakpoint stays.
\<close>

theorem line_breakpoint_gets_fresh_key:
  assumes "int (length ops) < 2 ^ 63 - 1"
  shows "let b = store_run NewBreakpoints ops; key = show_int (bp_index b)
         in Get b key = None \<and>
            (\<exists>b'. Add b [] (NewLineBreakpoint filename l) = (b', Inr key) \<and>
                  Get b' = (Get b)(key \<mapsto> LineBp filename l) \<and> distinct (keys_of (map_entries b')))"
proof -
  let ?b = "store_run NewBreakpoints ops"
  have "bps_inv ?b" "bp_index ?b < 2 ^ 63 - 1"
    using store_run_inv [of NewBreakpoints ops] assms by (auto simp: bp_index_New)
  then show ?thesis
    using bps.add_anon [of ?b "LineBp filename l"] bps.add_anon_fresh [of ?b]
    by (auto simp: Let_def NewLineBreakpoint_def bps_inv_distinct)
qed

theorem line_breakpoint_gets_fresh_key_witness:
  "let b = store_run NewBreakpoints [AddOnFail, AddLine ''Dockerfile'' 3, ClearKey ''0'']
   in \<exists>b'. Add b [] (NewLineBreakpoint ''Dockerfile'' 5) = (b', Inr ''1'')"
proof -
  let ?ops = "[AddOnFail, AddLine ''Dockerfile'' 3, ClearKey ''0'']"
  have "show_int (bp_index (store_run NewBreakpoints ?ops)) = ''1''"
    by code_simp
  moreover have "int (length ?ops) < 2 ^ 63 - 1"
    by simp
  ultimately show ?thesis
    using line_breakpoint_gets_fresh_key [of ?ops "''Dockerfile''" 5] by (auto simp: Let_def)
qed

text \<open>
  The order in which breakpoints are reported does not depend on how the Go map
  happens to be laid out: two stores with the same contents make \<open>ForEach\<close> call its
  callback on the same entries in the same order, and this order is sorted by key.
\<close>

theorem foreach_sorted_by_key:
  assumes "bps_inv b" "bps_inv b'" "Get b = Get b'"
  shows "ForEach b f s = ForEach b' f s \<and> bp_entries b = bp_entries b' \<and>
         sorted (keys_of (bp_entries b)) \<and> map_of (bp_entries b) = Get b"
proof -
  have "sorted_keys (map_entries b) = sorted_keys (map_entries b')"
    using assms by (intro sorted_keys_cong) (simp_all add: bps_inv_distinct)
  then show ?thesis
    using assms ForEach_cong [OF assms] bps.entries_sorted [of b] bps.entries_lookup [of b]
    by (simp add: bp_entries_def)
qed

theorem foreach_sorted_by_key_witness:
  "let b = \<lparr>bp_map = Some [(''on-fail'', OnFail), (''0'', LineBp ''a'' 1)], bp_index = 1\<rparr>;
       b' = \<lparr>bp_map = Some [(''0'', LineBp ''a'' 1), (''on-fail'', OnFail)], bp_index = 1\<rparr>
   in bp_entries b = bp_entries b'"
proof -
  let ?b = "store_run NewBreakpoints [AddOnFail, AddLine ''a'' 1]"
  let ?b' = "store_run NewBreakpoints [AddLine ''a'' 1, AddOnFail]"
  have b: "?b = \<lparr>bp_map = Some [(''on-fail'', OnFail), (''0'', LineBp ''a'' 1)], bp_index = 1\<rparr>"
    and b': "?b' = \<lparr>bp_map = Some [(''0'', LineBp ''a'' 1), (''on-fail'', OnFail)], bp_index = 1\<rparr>"
    by code_simp+
  have inv: "bps_inv ?b" "bps_inv ?b'"
    using store_run_inv [of NewBreakpoints "[AddOnFail, AddLine ''a'' 1]"]
      store_run_inv [of NewBreakpoints "[AddLine ''a'' 1, AddOnFail]"] by simp_all
  have same: "Get ?b = Get ?b'"
    unfolding b b' by (auto simp: fun_eq_iff)
  have "bp_entries ?b = bp_entries ?b'"
    by (rule foreach_sorted_by_key [OF inv same, THEN conjunct2, THEN conjunct1])
  then show ?thesis
    unfolding b b' Let_def .
qed

text \<open>
  A line breakpoint stops a step exactly when a range of the step's locations, in the
  breakpoint's file, covers its line, and it then reports each such range as a location
  of its own, in order.
\<close>

theorem line_breakpoint_hits:
  "isTarget (LineBp filename l) status locs =
     (let hits = [\<lparr>loc_source = loc_source loc, loc_ranges = [r]\<rparr>.
                    loc \<leftarrow> locs, si_filename (loc_source loc) = filename,
                    r \<leftarrow> loc_ranges loc, covers r l]
      in if hits = [] then (False, Text [], [])
         else (True, Text (''reached line: '' @ filename @ '':'' @ show_int l), hits))"
proof -
  have "[\<lparr>loc_source = loc_source loc, loc_ranges = [r]\<rparr>.
           loc \<leftarrow> locs, si_filename (loc_source loc) = filename, r \<leftarrow> loc_ranges loc, covers r l] =
        line_hits filename l locs"
  proof (induction locs)
    case (Cons loc locs)
    have "concat (map (\<lambda>r. if covers r l then [\<lparr>loc_source = loc_source loc, loc_ranges = [r]\<rparr>] else []) rs) =
          map (\<lambda>r. \<lparr>loc_source = loc_source loc, loc_ranges = [r]\<rparr>) (filter (\<lambda>r. covers r l) rs)" for rs
      by (induction rs) auto
    with Cons show ?case
      by (simp add: line_hits_def)
  qed (simp add: line_hits_def)
  then show ?thesis
    by (simp add: isTarget_line del: isTarget.simps)
qed

end
