(* ===== verification/Handler.thy ===== *)
theory Handler
  imports Breakpoints
begin

text \<open>
  \<open>pkg/buildkit/handler.go\<close>: the decision whether a step stops the build, and the call of
  the client's breakpoint handler (the debug shell or the DAP debugger) when it does. The
  client's handler is an argument: it gets the \<open>Handler\<close> and a state of its own and
  returns both, changed or not, with its error.
\<close>

record handler =
  h_breakpoints :: breakpoints
  h_breakEachVertex :: bool
  h_entried :: bool
  h_stopOnEntry :: bool
  h_disableBreakpoints :: bool

record debug_config =
  dc_breakpoints :: "breakpoints option"
  dc_stopOnEntry :: bool
  dc_disableBreakpoints :: bool

type_synonym hits = "(string \<times> breakpoint_info) list"

type_synonym 'w break_handler =
  "registered_status \<Rightarrow> location list \<Rightarrow> hits \<Rightarrow> handler \<times> 'w \<Rightarrow> go_err option \<times> handler \<times> 'w"

text \<open>The handler that \<open>withDebug\<close> makes: without a store of its own the on-fail breakpoint is set.\<close>

definition withDebug_handler :: "debug_config \<Rightarrow> handler" where
  "withDebug_handler cfg =
     \<lparr>h_breakpoints = (case dc_breakpoints cfg of
         None \<Rightarrow> \<lparr>bp_map = Some [(''on-fail'', NewOnFailBreakpoint)], bp_index = 0\<rparr>
       | Some b \<Rightarrow> b),
      h_breakEachVertex = False, h_entried = False,
      h_stopOnEntry = dc_stopOnEntry cfg, h_disableBreakpoints = dc_disableBreakpoints cfg\<rparr>"

definition BreakEachVertex :: "handler \<Rightarrow> bool \<Rightarrow> handler" where
  "BreakEachVertex h b = h\<lparr>h_breakEachVertex := b\<rparr>"

text \<open>The error of \<open>isTarget\<close> is nil for both kinds of breakpoints, so its branch is left out.\<close>

definition getHitBreakpoints ::
  "breakpoints \<Rightarrow> registered_status \<Rightarrow> location list \<Rightarrow> hits" where
  "getHitBreakpoints b info locs =
     ForEach b
       (\<lambda>key bp hit.
          case isTarget bp info locs of
            (yes, desc, hits) \<Rightarrow>
              (True, if yes then AList.update key \<lparr>bi_description = desc, bi_hits = hits\<rparr> hit else hit))
       []"

text \<open>
  \<open>Handler.handle\<close>, under its mutex. Copying the hit map into \<open>hits\<close> is the loop over
  \<open>(hits, isBreakpoint)\<close>.
\<close>

definition copy_hits :: "hits \<Rightarrow> hits \<times> bool" where
  "copy_hits hit = fold (\<lambda>(key, bp) (hits, isB). (AList.update key bp hits, True)) hit ([], False)"

definition Handler_handle ::
  "'w break_handler \<Rightarrow> registered_status \<Rightarrow> location list \<Rightarrow> handler \<times> 'w
     \<Rightarrow> go_err option \<times> handler \<times> 'w" where
  "Handler_handle bh info locs hw =
     (case hw of (h, w) \<Rightarrow>
        if locs = [] then (None, h, w)
        else
          (case copy_hits (getHitBreakpoints (h_breakpoints h) info locs) of
             (hits, isBreakpoint) \<Rightarrow>
               if h_disableBreakpoints h \<or>
                  (\<not> h_stopOnEntry h \<or> h_entried h) \<and> \<not> h_breakEachVertex h \<and> \<not> isBreakpoint
               then (None, h, w)
               else bh info locs hits (if h_entried h then h else h\<lparr>h_entried := True\<rparr>, w)))"

section \<open>Hit breakpoints\<close>

definition hit_info :: "breakpoint \<Rightarrow> registered_status \<Rightarrow> location list \<Rightarrow> breakpoint_info option" where
  "hit_info bp info locs =
     (case isTarget bp info locs of
        (yes, desc, hits) \<Rightarrow> if yes then Some \<lparr>bi_description = desc, bi_hits = hits\<rparr> else None)"

lemma getHitBreakpoints_eq:
  assumes "bps_inv b"
  shows "getHitBreakpoints b info locs =
         select (\<lambda>bp. hit_info bp info locs) (bp_entries b)"
proof -
  have "getHitBreakpoints b info locs =
        fold (\<lambda>(k, bp) hit. case hit_info bp info locs of None \<Rightarrow> hit | Some i \<Rightarrow> AList.update k i hit)
          (bp_entries b) []"
    unfolding getHitBreakpoints_def
    by (subst ForEach_fold [where g = "\<lambda>k bp hit. case hit_info bp info locs of None \<Rightarrow> hit
          | Some i \<Rightarrow> AList.update k i hit"])
       (simp_all add: hit_info_def split: prod.splits)
  also have "\<dots> = [] @ select (\<lambda>bp. hit_info bp info locs) (bp_entries b)"
    using fold_update_select [where hit = "[]" and es = "bp_entries b" and g = "\<lambda>bp. hit_info bp info locs"]
    by (simp add: bps.entries_distinct assms)
  finally show ?thesis
    by simp
qed

lemma getHitBreakpoints_distinct:
  "bps_inv b \<Longrightarrow> distinct (keys_of (getHitBreakpoints b info locs))"
  by (simp add: getHitBreakpoints_eq distinct_select bps.entries_distinct)

lemma getHitBreakpoints_lookup:
  "bps_inv b \<Longrightarrow> map_of (getHitBreakpoints b info locs) k =
     Option.bind (Get b k) (\<lambda>bp. hit_info bp info locs)"
  by (simp add: getHitBreakpoints_eq map_of_select bps.entries_distinct bps.entries_lookup)

lemma copy_hits_eq: "distinct (keys_of hit) \<Longrightarrow> copy_hits hit = (hit, hit \<noteq> [])"
proof -
  have "fold (\<lambda>(key, bp) (hits, isB). (AList.update key bp hits, True)) es (hs, b) =
        (hs @ es, b \<or> es \<noteq> [])" if "distinct (keys_of (hs @ es))" for es hs :: hits and b
    using that
  proof (induction es arbitrary: hs b)
    case (Cons e es)
    moreover obtain k i where "e = (k, i)"
      by (cases e)
    ultimately show ?case
      by (simp add: AList_update_new)
  qed simp
  from this [of "[]" hit False] show "distinct (keys_of hit) \<Longrightarrow> ?thesis"
    by (simp add: copy_hits_def)
qed

section \<open>When a step stops\<close>

text \<open>
  The specification: the step has a location, breakpoints are not disabled, and it is the
  entry, or every step stops, or some breakpoint is hit.
\<close>

definition stops_at :: "handler \<Rightarrow> registered_status \<Rightarrow> location list \<Rightarrow> bool" where
  "stops_at h info locs \<longleftrightarrow> locs \<noteq> [] \<and> \<not> h_disableBreakpoints h \<and>
     (h_stopOnEntry h \<and> \<not> h_entried h \<or> h_breakEachVertex h \<or>
      (\<exists>k bp. Get (h_breakpoints h) k = Some bp \<and> hit_info bp info locs \<noteq> None))"

definition handler_inv :: "handler \<Rightarrow> bool" where
  "handler_inv h \<longleftrightarrow> bps_inv (h_breakpoints h)"

lemma hits_nonempty_iff:
  assumes "bps_inv b"
  shows "getHitBreakpoints b info locs \<noteq> [] \<longleftrightarrow>
         (\<exists>k bp. Get b k = Some bp \<and> hit_info bp info locs \<noteq> None)"
proof -
  have bind: "Option.bind (Get b k) f \<noteq> None \<longleftrightarrow> (\<exists>bp. Get b k = Some bp \<and> f bp \<noteq> None)"
    for k and f :: "breakpoint \<Rightarrow> breakpoint_info option"
    by (cases "Get b k") auto
  have "getHitBreakpoints b info locs \<noteq> [] \<longleftrightarrow>
        (\<exists>k. map_of (getHitBreakpoints b info locs) k \<noteq> None)"
    using map_of_eq_empty_iff [of "getHitBreakpoints b info locs"] by (auto simp: fun_eq_iff simp del: map_of_eq_empty_iff)
  then show ?thesis
    by (simp only: getHitBreakpoints_lookup [OF assms] bind)
qed

lemma Handler_handle_eq:
  assumes "handler_inv h"
  shows "Handler_handle bh info locs (h, w) =
     (if stops_at h info locs
      then bh info locs (getHitBreakpoints (h_breakpoints h) info locs) (h\<lparr>h_entried := True\<rparr>, w)
      else (None, h, w))"
proof -
  have inv: "bps_inv (h_breakpoints h)"
    using assms by (simp add: handler_inv_def)
  have entried: "(if h_entried h then h else h\<lparr>h_entried := True\<rparr>) = h\<lparr>h_entried := True\<rparr>"
    by (cases h) simp
  have "copy_hits (getHitBreakpoints (h_breakpoints h) info locs) =
        (getHitBreakpoints (h_breakpoints h) info locs,
         \<exists>k bp. Get (h_breakpoints h) k = Some bp \<and> hit_info bp info locs \<noteq> None)"
    by (subst copy_hits_eq [OF getHitBreakpoints_distinct [OF inv]]) (simp only: hits_nonempty_iff [OF inv])
  then show ?thesis
    by (auto simp: Handler_handle_def stops_at_def entried)
qed

section \<open>Properties\<close>

text \<open>
  C1. The handler stops a step and calls its client exactly when the step has a location,
  breakpoints are not disabled, and it is the first such step of a stop-on-entry session,
  or every step is stopped at, or a breakpoint of the store is hit; otherwise nothing
  changes. The client is told every hit breakpoint, under its key, and no other, and from
  then on the session counts as entered.
\<close>

theorem handler_stop_decision:
  assumes "handler_inv h"
  shows "\<exists>hits. (\<forall>k. map_of hits k = Option.bind (Get (h_breakpoints h) k) (\<lambda>bp. hit_info bp info locs)) \<and>
     Handler_handle bh info locs (h, w) =
       (if locs \<noteq> [] \<and> \<not> h_disableBreakpoints h \<and>
           (h_stopOnEntry h \<and> \<not> h_entried h \<or> h_breakEachVertex h \<or>
            (\<exists>k bp. Get (h_breakpoints h) k = Some bp \<and> fst (isTarget bp info locs)))
        then bh info locs hits (h\<lparr>h_entried := True\<rparr>, w)
        else (None, h, w))"
proof -
  have "hit_info bp info locs \<noteq> None \<longleftrightarrow> fst (isTarget bp info locs)" for bp
    by (auto simp: hit_info_def split: prod.splits)
  then have "stops_at h info locs \<longleftrightarrow> locs \<noteq> [] \<and> \<not> h_disableBreakpoints h \<and>
           (h_stopOnEntry h \<and> \<not> h_entried h \<or> h_breakEachVertex h \<or>
            (\<exists>k bp. Get (h_breakpoints h) k = Some bp \<and> fst (isTarget bp info locs)))"
    by (simp add: stops_at_def)
  moreover have "bps_inv (h_breakpoints h)"
    using assms by (simp add: handler_inv_def)
  ultimately show ?thesis
    using Handler_handle_eq [OF assms, of bh info locs w] getHitBreakpoints_lookup
    by (intro exI [of _ "getHitBreakpoints (h_breakpoints h) info locs"]) simp
qed

definition sample_status :: "go_err option \<Rightarrow> registered_status" where
  "sample_status err = \<lparr>rs_name = ''s'', rs_debug_id = ''i'', rs_input_ids = [], rs_mount_ids = [],
     rs_vertex = ''v'', rs_op = \<lparr>op_kind_of = Op_Other, op_platform = 0, op_constraints = 0\<rparr>, rs_err = err\<rparr>"

theorem handler_stop_decision_witness:
  "let h = (withDebug_handler \<lparr>dc_breakpoints = None, dc_stopOnEntry = False, dc_disableBreakpoints = False\<rparr>);
       locs = [\<lparr>loc_source = \<lparr>si_addr = 0, si_filename = ''f'', si_data = []\<rparr>, loc_ranges = []\<rparr>];
       bh = (\<lambda>info locs hits hw. (Some ErrExit, hw))
   in Handler_handle bh (sample_status None) locs (h, ()) = (None, h, ()) \<and>
      Handler_handle bh (sample_status (Some ErrCanceled)) locs (h, ()) = (Some ErrExit, h\<lparr>h_entried := True\<rparr>, ())"
proof -
  let ?h = "withDebug_handler \<lparr>dc_breakpoints = None, dc_stopOnEntry = False, dc_disableBreakpoints = False\<rparr>"
  let ?locs = "[\<lparr>loc_source = \<lparr>si_addr = 0, si_filename = ''f'', si_data = []\<rparr>, loc_ranges = []\<rparr>]"
  let ?bh = "\<lambda>info locs hits hw. (Some ErrExit, hw)"
  have bps: "h_breakpoints ?h = \<lparr>bp_map = Some [(''on-fail'', OnFail)], bp_index = 0\<rparr>"
    by (simp add: withDebug_handler_def NewOnFailBreakpoint_def)
  have inv: "handler_inv ?h"
    unfolding handler_inv_def bps by (simp add: bps_inv_def)
  have get: "Get (h_breakpoints ?h) k = Some bp \<longleftrightarrow> k = ''on-fail'' \<and> bp = OnFail" for k bp
    unfolding bps by auto
  have flags: "\<not> h_disableBreakpoints ?h" "\<not> h_stopOnEntry ?h" "\<not> h_breakEachVertex ?h"
    by (simp_all add: withDebug_handler_def)
  show ?thesis
    using handler_stop_decision [OF inv, of "sample_status None" ?locs ?bh "()"]
      handler_stop_decision [OF inv, of "sample_status (Some ErrCanceled)" ?locs ?bh "()"]
    unfolding get by (auto simp: Let_def flags sample_status_def)
qed

end
