(* ===== verification/Controller.thy ===== *)
theory Controller
  imports Handler "HOL-Library.Multiset" "HOL-Library.Sublist"
begin

text \<open>
  \<open>pkg/buildkit/controller.go\<close>: the reference-counted sources of the running solves and the
  lookup of a step's locations in them, the results a step registers, the wrapper that
  reports each operation before its result is used, and the loop that hands the reported
  steps to the handler. The concurrent protocol of the pause is in \<open>Pausing\<close>.
\<close>

section \<open>Location sources\<close>

record src_loc =
  sl_index :: int
  sl_ranges :: "pb_range list"

text \<open>A \<open>*pb.Source\<close>: a pointer (\<open>ps_addr\<close>) with the locations of each vertex.\<close>

record pb_source =
  ps_addr :: nat
  ps_locations :: "(string \<times> src_loc list) list"
  ps_infos :: "source_info list"

type_synonym 'k refcounts = "('k \<times> int) list option"

definition src_entries :: "'k refcounts \<Rightarrow> ('k \<times> int) list" where
  "src_entries d = (case d of None \<Rightarrow> [] | Some m \<Rightarrow> m)"

definition addLocationSource :: "'k refcounts \<Rightarrow> 'k \<Rightarrow> 'k refcounts" where
  "addLocationSource d s =
     (let m = src_entries d
      in case map_of m s of
           Some n \<Rightarrow> Some (AList.update s (wrap64 (n + 1)) m)
         | None \<Rightarrow> Some (AList.update s 1 m))"

definition deleteLocationSource :: "'k refcounts \<Rightarrow> 'k \<Rightarrow> 'k refcounts" where
  "deleteLocationSource d s =
     (case d of
        None \<Rightarrow> None
      | Some m \<Rightarrow>
          (case map_of m s of
             None \<Rightarrow> Some m
           | Some n \<Rightarrow>
               (let m1 = AList.update s (wrap64 (n - 1)) m
                in if wrap64 (n - 1) = 0 then Some (AList.delete s m1) else Some m1)))"

text \<open>
  The contract: the table represents the multiset of the sources in use. Its client is a
  solve, which adds its source, runs, and deletes it again.
\<close>

locale source_refs =
  fixes rep :: "'d \<Rightarrow> 'k multiset \<Rightarrow> bool"
    and add :: "'d \<Rightarrow> 'k \<Rightarrow> 'd"
    and del :: "'d \<Rightarrow> 'k \<Rightarrow> 'd"
    and present :: "'d \<Rightarrow> 'k \<Rightarrow> bool"
  assumes rep_add: "rep d M \<Longrightarrow> size M < 2 ^ 63 - 1 \<Longrightarrow> rep (add d s) (add_mset s M)"
    and rep_del: "rep d M \<Longrightarrow> size M < 2 ^ 63 \<Longrightarrow> rep (del d s) (M - {#s#})"
    and rep_present: "rep d M \<Longrightarrow> present d s \<longleftrightarrow> s \<in># M"

datatype 'k source_op = AddSource 'k | DeleteSource 'k

primrec source_step :: "('d \<Rightarrow> 'k \<Rightarrow> 'd) \<Rightarrow> ('d \<Rightarrow> 'k \<Rightarrow> 'd) \<Rightarrow> 'd \<Rightarrow> 'k source_op \<Rightarrow> 'd" where
  "source_step add del d (AddSource s) = add d s"
| "source_step add del d (DeleteSource s) = del d s"

primrec in_use :: "'k source_op \<Rightarrow> 'k multiset \<Rightarrow> 'k multiset" where
  "in_use (AddSource s) M = add_mset s M"
| "in_use (DeleteSource s) M = M - {#s#}"

text \<open>A source is deleted no more often than it was added, at any time.\<close>

definition paired :: "'k \<Rightarrow> 'k source_op list \<Rightarrow> bool" where
  "paired s ops \<longleftrightarrow>
     (\<forall>past \<in> set (prefixes ops). count_list past (DeleteSource s) \<le> count_list past (AddSource s))"

lemma paired_prefix: "paired s (ops @ later) \<Longrightarrow> paired s ops"
  by (auto simp: paired_def)

lemma count_in_use:
  "paired s ops \<Longrightarrow>
   count (fold in_use ops {#}) s + count_list ops (DeleteSource s) = count_list ops (AddSource s)"
proof (induction ops rule: rev_induct)
  case (snoc op ops)
  have "count_list (ops @ [op]) (DeleteSource s) \<le> count_list (ops @ [op]) (AddSource s)"
    using snoc.prems by (simp add: paired_def)
  with snoc.IH [OF paired_prefix [OF snoc.prems]] show ?case
    by (cases op) auto
qed simp

lemma size_in_use: "size (in_use op M) \<le> Suc (size M)"
  by (cases op) (auto simp: size_Diff1_le le_SucI)

context source_refs
begin

lemma rep_run:
  "rep d M \<Longrightarrow> size M + length ops < 2 ^ 63 - 1 \<Longrightarrow>
   rep (foldl (source_step add del) d ops) (fold in_use ops M)"
proof (induction ops arbitrary: d M)
  case (Cons op ops)
  have "rep (source_step add del d op) (in_use op M)"
    using Cons.prems by (cases op) (auto intro: rep_add rep_del)
  moreover have "size (in_use op M) + length ops < 2 ^ 63 - 1"
    using Cons.prems size_in_use [of op M] by simp
  ultimately show ?case
    using Cons.IH by simp
qed simp

text \<open>A source is there while a solve uses it, and the table is as before when it is done.\<close>

lemma bracket:
  assumes "rep d M" "size M < 2 ^ 63 - 1"
    and "\<And>d'. rep d' (add_mset s M) \<Longrightarrow> rep (f d') (add_mset s M)"
  shows "present (add d s) s \<and> rep (del (f (add d s)) s) M"
proof -
  have "rep (add d s) (add_mset s M)"
    using assms by (intro rep_add)
  moreover from this have "rep (f (add d s)) (add_mset s M)"
    by (rule assms(3))
  ultimately show ?thesis
    using rep_present rep_del [of "f (add d s)" "add_mset s M" s] assms(2) by simp
qed

end

definition src_rep :: "'k refcounts \<Rightarrow> 'k multiset \<Rightarrow> bool" where
  "src_rep d M \<longleftrightarrow> distinct (keys_of (src_entries d)) \<and>
     (\<forall>s. map_of (src_entries d) s = (if s \<in># M then Some (int (count M s)) else None))"

definition src_present :: "'k refcounts \<Rightarrow> 'k \<Rightarrow> bool" where
  "src_present d s \<longleftrightarrow> map_of (src_entries d) s \<noteq> None"

lemma src_entries_add:
  "src_entries (addLocationSource d s) =
     AList.update s (case map_of (src_entries d) s of Some n \<Rightarrow> wrap64 (n + 1) | None \<Rightarrow> 1) (src_entries d)"
  by (simp add: addLocationSource_def src_entries_def Let_def split: option.splits)

lemma src_entries_del:
  "src_entries (deleteLocationSource d s) =
     (case map_of (src_entries d) s of
        None \<Rightarrow> src_entries d
      | Some n \<Rightarrow> (let m1 = AList.update s (wrap64 (n - 1)) (src_entries d)
                   in if wrap64 (n - 1) = 0 then AList.delete s m1 else m1))"
  by (simp add: deleteLocationSource_def src_entries_def Let_def split: option.splits)

lemma wrap64_count: "size M < 2 ^ 63 - 1 \<Longrightarrow> wrap64 (int (count M s) + 1) = int (count M s) + 1"
  using count_le_size [of M s] by (intro wrap64_id) (simp add: in64_def)

lemma wrap64_count_pred: "size M < 2 ^ 63 \<Longrightarrow> wrap64 (int (count M s) - 1) = int (count M s) - 1"
  using count_le_size [of M s] by (intro wrap64_id) (simp add: in64_def)

lemma src_rep_None [simp]: "src_rep None {#}"
  by (simp add: src_rep_def src_entries_def)

interpretation srcs: source_refs src_rep addLocationSource deleteLocationSource src_present
proof
  fix d :: "'k refcounts" and M s
  assume "src_rep d M" "size M < 2 ^ 63 - 1"
  then show "src_rep (addLocationSource d s) (add_mset s M)"
    by (auto simp: src_rep_def src_entries_add distinct_update wrap64_count not_in_iff)
next
  fix d :: "'k refcounts" and M s
  assume rep: "src_rep d M" and size: "size M < 2 ^ 63"
  have "src_rep (deleteLocationSource d s) (M - {#s#})" if "s \<in># M" "count M s = 1"
    using rep that size
    by (auto simp: src_rep_def src_entries_del distinct_update distinct_delete wrap64_count_pred Let_def
        in_diff_count)
  moreover have "src_rep (deleteLocationSource d s) (M - {#s#})" if "1 < count M s"
  proof -
    from that have "s \<in># M"
      by (metis count_inI gr_zeroI not_less_zero)
    with rep size that show ?thesis
      by (auto simp: src_rep_def src_entries_del distinct_update wrap64_count_pred Let_def in_diff_count)
  qed
  moreover have "src_rep (deleteLocationSource d s) (M - {#s#})" if "s \<notin># M"
    using rep that by (simp add: src_rep_def src_entries_del diff_single_trivial)
  ultimately show "src_rep (deleteLocationSource d s) (M - {#s#})"
    by (metis count_greater_eq_one_iff le_neq_implies_less)
next
  fix d :: "'k refcounts" and M s
  assume "src_rep d M"
  then show "src_present d s \<longleftrightarrow> s \<in># M"
    by (simp add: src_rep_def src_present_def)
qed

section \<open>Locations of a vertex\<close>

text \<open>
  \<open>getLocation\<close>: the loop over the sources in the order the Go map yields (the argument
  \<open>order\<close>), and for each the loop over its locations of the vertex.
\<close>

primrec infos_loop :: "pb_source \<Rightarrow> src_loc list \<Rightarrow> location list \<Rightarrow> location list go_result" where
  "infos_loop s [] acc = Ok acc"
| "infos_loop s (l # ls) acc =
     (if 0 \<le> sl_index l \<and> sl_index l < int (length (ps_infos s))
      then infos_loop s ls (acc @ [\<lparr>loc_source = ps_infos s ! nat (sl_index l), loc_ranges = sl_ranges l\<rparr>])
      else Panic ''index out of range'')"

primrec sources_loop :: "string \<Rightarrow> pb_source list \<Rightarrow> location list \<Rightarrow> location list go_result" where
  "sources_loop v [] acc = Ok acc"
| "sources_loop v (s # ss) acc =
     (case map_of (ps_locations s) v of
        None \<Rightarrow> sources_loop v ss acc
      | Some ls \<Rightarrow> (case infos_loop s ls acc of
                      Ok acc' \<Rightarrow> sources_loop v ss acc'
                    | Fail e \<Rightarrow> Fail e
                    | Panic m \<Rightarrow> Panic m))"

definition getLocation :: "pb_source list \<Rightarrow> string \<Rightarrow> location list go_result" where
  "getLocation order v =
     (case sources_loop v order [] of
        Ok [] \<Rightarrow> Fail (Errorf ''location info for vertex %v not found'' [v])
      | r \<Rightarrow> r)"

text \<open>The indices that BuildKit puts into a source name an entry of its infos.\<close>

definition source_ok :: "pb_source \<Rightarrow> bool" where
  "source_ok s \<longleftrightarrow> (\<forall>(v, ls) \<in> set (ps_locations s). \<forall>l \<in> set ls.
     0 \<le> sl_index l \<and> sl_index l < int (length (ps_infos s)))"

definition locs_in :: "string \<Rightarrow> pb_source \<Rightarrow> location list" where
  "locs_in v s =
     map (\<lambda>l. \<lparr>loc_source = ps_infos s ! nat (sl_index l), loc_ranges = sl_ranges l\<rparr>)
       (case map_of (ps_locations s) v of None \<Rightarrow> [] | Some ls \<Rightarrow> ls)"

lemma infos_loop_ok:
  "\<forall>l \<in> set ls. 0 \<le> sl_index l \<and> sl_index l < int (length (ps_infos s)) \<Longrightarrow>
   infos_loop s ls acc =
   Ok (acc @ map (\<lambda>l. \<lparr>loc_source = ps_infos s ! nat (sl_index l), loc_ranges = sl_ranges l\<rparr>) ls)"
  by (induction ls arbitrary: acc) auto

lemma sources_loop_ok:
  "\<forall>s \<in> set order. source_ok s \<Longrightarrow>
   sources_loop v order acc = Ok (acc @ concat (map (locs_in v) order))"
proof (induction order arbitrary: acc)
  case (Cons s ss)
  show ?case
  proof (cases "map_of (ps_locations s) v")
    case (Some ls)
    then have "(v, ls) \<in> set (ps_locations s)"
      by (rule map_of_SomeD)
    with Cons.prems have "\<forall>l \<in> set ls. 0 \<le> sl_index l \<and> sl_index l < int (length (ps_infos s))"
      by (auto simp: source_ok_def)
    with Cons Some show ?thesis
      by (simp add: infos_loop_ok locs_in_def)
  qed (use Cons in \<open>simp add: locs_in_def\<close>)
qed simp

lemma getLocation_ok:
  assumes "\<forall>s \<in> set order. source_ok s"
  shows "getLocation order v =
    (if concat (map (locs_in v) order) = []
     then Fail (Errorf ''location info for vertex %v not found'' [v])
     else Ok (concat (map (locs_in v) order)))"
  using sources_loop_ok [OF assms, of v "[]"]
  by (cases "concat (map (locs_in v) order)") (simp_all add: getLocation_def del: concat_eq_Nil_conv)

section \<open>Solving with a source\<close>

text \<open>
  \<open>debugFrontendBridge.Solve\<close> and \<open>debugGatewayClient.Solve\<close>: the request is evaluated
  eagerly, and its source is in the table while the wrapped solve runs. The wrapped solve
  is an argument; other solves and the event loop run inside it, so it has the table. The
  delete is deferred: it runs also when the wrapped solve panics, so it is applied to
  whatever the result is.
\<close>

record 'k solve_request =
  req_evaluate :: bool
  req_source :: "'k option"

definition debug_Solve ::
  "('k solve_request \<Rightarrow> 'k refcounts \<Rightarrow> 'res \<times> 'k refcounts) \<Rightarrow> 'k solve_request \<Rightarrow> 'k refcounts
     \<Rightarrow> 'res \<times> 'k refcounts" where
  "debug_Solve solve req d =
     (let req' = req\<lparr>req_evaluate := True\<rparr>
      in case req_source req' of
           None \<Rightarrow> solve req' d
         | Some s \<Rightarrow> (case solve req' (addLocationSource d s) of
                        (res, d') \<Rightarrow> (res, deleteLocationSource d' s)))"

section \<open>Results\<close>

text \<open>
  A result of the solver is opaque: \<open>sys\<close> is its \<open>Sys()\<close> when that is a worker reference,
  \<open>ref_id\<close> the \<open>ID()\<close> of a reference, \<open>clone\<close> its \<open>Clone()\<close>. A nil result is \<open>None\<close>.
\<close>

primrec register_loop ::
  "('r \<Rightarrow> 'ref option) \<Rightarrow> ('ref \<Rightarrow> string) \<Rightarrow> 'r option list \<Rightarrow> nat
     \<Rightarrow> string list \<times> (string \<times> 'ref) list \<Rightarrow> (string list \<times> go_err option) \<times> (string \<times> 'ref) list" where
  "register_loop sys ref_id [] i st = ((fst st, None), snd st)"
| "register_loop sys ref_id (r # rs) i st =
     (case r of
        None \<Rightarrow> register_loop sys ref_id rs (Suc i) st
      | Some res \<Rightarrow>
          (case sys res of
             None \<Rightarrow> ((fst st, Some (Errorf ''unexpected type for result, got %T'' [])), snd st)
           | Some ref \<Rightarrow>
               register_loop sys ref_id rs (Suc i)
                 ((fst st)[i := ref_id ref], AList.update (ref_id ref) ref (snd st))))"

definition registerResultIDs ::
  "('r \<Rightarrow> 'ref option) \<Rightarrow> ('ref \<Rightarrow> string) \<Rightarrow> 'r option list \<Rightarrow> (string \<times> 'ref) list
     \<Rightarrow> (string list \<times> go_err option) \<times> (string \<times> 'ref) list" where
  "registerResultIDs sys ref_id results refs =
     register_loop sys ref_id results 0 (replicate (length results) [], refs)"

definition WorkerRefByID :: "(string \<times> 'ref) list \<Rightarrow> string \<Rightarrow> 'ref option" where
  "WorkerRefByID refs ident = map_of refs ident"

text \<open>
  \<open>getResultMounts\<close>: for a RUN step, the results mounted before and after it, one per
  mount of the step and nil where the mount has none; for another step with one output,
  that output.
\<close>

definition mount_input :: "('r \<Rightarrow> 'r) \<Rightarrow> 'r list \<Rightarrow> pb_mount \<Rightarrow> 'r option" where
  "mount_input clone inputs m =
     (if mnt_input m < 0 then None
      else if int (length inputs) \<le> mnt_input m then None
      else Some (clone (inputs ! nat (mnt_input m))))"

definition mount_output :: "('r \<Rightarrow> 'r) \<Rightarrow> 'r list \<Rightarrow> pb_mount \<times> 'r option \<Rightarrow> 'r option" where
  "mount_output clone outputs mi =
     (case mi of (m, i) \<Rightarrow>
        if mnt_output m < 0 then i
        else if int (length outputs) \<le> mnt_output m then i
        else Some (clone (outputs ! nat (mnt_output m))))"

definition getResultMounts ::
  "('r \<Rightarrow> 'r) \<Rightarrow> pb_op \<Rightarrow> 'r list \<Rightarrow> 'r list \<Rightarrow> 'r option list \<times> 'r option list" where
  "getResultMounts clone op inputs outputs =
     (case op_kind_of op of
        Op_Exec ex \<Rightarrow>
          (let execInputs = map (mount_input clone inputs) (ex_mounts ex);
               execMounts = map (mount_output clone outputs) (zip (ex_mounts ex) execInputs)
           in (execInputs, execMounts))
      | Op_Other \<Rightarrow> if length outputs = 1 then ([], map Some outputs) else ([], []))"

section \<open>Reporting an operation\<close>

record 'r op_status =
  st_name :: string
  st_inputs :: "'r option list"
  st_mounts :: "'r option list"
  st_vertex :: string
  st_op :: pb_op
  st_err :: "go_err option"

record vertex =
  vx_name :: string
  vx_digest :: string
  vx_description :: "(string \<times> string) list"
  vx_op :: pb_op

text \<open>
  The part of \<open>notifyAndWait\<close> before the event is sent: both lists of results are
  registered, an error returns early, and \<open>ident\<close> is the fresh identifier. Sending the event
  and waiting for it is the protocol of \<open>Pausing\<close>.
\<close>

definition prepare_status ::
  "('r \<Rightarrow> 'ref option) \<Rightarrow> ('ref \<Rightarrow> string) \<Rightarrow> string \<Rightarrow> 'r op_status \<Rightarrow> (string \<times> 'ref) list
     \<Rightarrow> (go_err + registered_status) \<times> (string \<times> 'ref) list" where
  "prepare_status sys ref_id ident s refs =
     (case registerResultIDs sys ref_id (st_inputs s) refs of
        ((inputIDs, Some e), refs1) \<Rightarrow> (Inl e, refs1)
      | ((inputIDs, None), refs1) \<Rightarrow>
          (case registerResultIDs sys ref_id (st_mounts s) refs1 of
             ((mountIDs, Some e), refs2) \<Rightarrow> (Inl e, refs2)
           | ((mountIDs, None), refs2) \<Rightarrow>
               (Inr \<lparr>rs_name = st_name s, rs_debug_id = ident, rs_input_ids = inputIDs,
                     rs_mount_ids = mountIDs, rs_vertex = st_vertex s, rs_op = st_op s,
                     rs_err = st_err s\<rparr>, refs2)))"

text \<open>
  \<open>ResolveOp\<close>: the operation is wrapped unless it could not be resolved or its vertex is
  marked \<open>debug=no\<close>; the result is the error or whether the wrapper is there.
\<close>

definition ResolveOp :: "'op + go_err \<Rightarrow> vertex \<Rightarrow> go_err + ('op \<times> bool)" where
  "ResolveOp resolved v =
     (case resolved of
        Inr e \<Rightarrow> Inl e
      | Inl op \<Rightarrow>
          if list_ex (\<lambda>(k, d). k = ''debug'' \<and> d = ''no'') (vx_description v) then Inr (op, False)
          else Inr (op, True))"

text \<open>
  \<open>Exec\<close> of the wrapper: the status of the wrapped operation's outcome is reported before
  the outcome is returned. \<open>exec_err\<close> is \<open>errors.As(err, *ExecError)\<close>: the inputs and
  mounts that the error of a failed RUN carries. \<open>notify\<close> is \<open>notifyAndWait\<close>.
\<close>

definition exec_status ::
  "('r \<Rightarrow> 'r) \<Rightarrow> (go_err \<Rightarrow> ('r option list \<times> 'r option list) option) \<Rightarrow> vertex \<Rightarrow> 'r list
     \<Rightarrow> 'r list \<times> go_err option \<Rightarrow> 'r op_status" where
  "exec_status clone exec_err v inputs outcome =
     (case outcome of (outputs, err) \<Rightarrow>
        case (case err of
                Some e \<Rightarrow> (case exec_err e of Some ims \<Rightarrow> ims | None \<Rightarrow> ([], []))
              | None \<Rightarrow> getResultMounts clone (vx_op v) inputs outputs) of
          (execInputs, execMounts) \<Rightarrow>
            \<lparr>st_name = vx_name v, st_inputs = execInputs, st_mounts = execMounts,
             st_vertex = vx_digest v, st_op = vx_op v, st_err = err\<rparr>)"

definition wrapper_Exec ::
  "('r \<Rightarrow> 'r) \<Rightarrow> (go_err \<Rightarrow> ('r option list \<times> 'r option list) option) \<Rightarrow> vertex
     \<Rightarrow> ('r op_status \<Rightarrow> go_err option) \<Rightarrow> ('r list \<Rightarrow> 'r list \<times> go_err option) \<Rightarrow> 'r list
     \<Rightarrow> 'r list \<times> go_err option" where
  "wrapper_Exec clone exec_err v notify exec inputs =
     (case exec inputs of (outputs, err) \<Rightarrow>
        (case notify (exec_status clone exec_err v inputs (outputs, err)) of
           Some nErr \<Rightarrow> (outputs, if err = None then Some nErr else err)
         | None \<Rightarrow> (outputs, err)))"

text \<open>\<open>LoadCacheHook\<close>: a cached step is reported too; an error of the report is only logged.\<close>

definition cache_status :: "('r \<Rightarrow> 'r) \<Rightarrow> vertex \<Rightarrow> 'r list \<Rightarrow> 'r list \<Rightarrow> 'r op_status" where
  "cache_status clone v inputs outputs =
     (case getResultMounts clone (vx_op v) inputs outputs of (execInputs, execMounts) \<Rightarrow>
        \<lparr>st_name = vx_name v, st_inputs = execInputs, st_mounts = execMounts,
         st_vertex = vx_digest v, st_op = vx_op v, st_err = None\<rparr>)"

section \<open>The event loop\<close>

text \<open>
  \<open>debugController.handle\<close>, over the events it receives: each with the order in which the
  source table is ranged over at that moment. A step without locations is only continued;
  an error of the handler ends the loop with the step still paused. The result is the
  identifiers that were continued, the error (\<open>None\<close> while the loop goes on) and the
  state of the handler. The context is \<open>context.Background()\<close>, which is never done.
\<close>

record debug_event =
  ev_status :: registered_status
  ev_order :: "pb_source list"

primrec event_loop ::
  "'w break_handler \<Rightarrow> debug_event list \<Rightarrow> handler \<times> 'w
     \<Rightarrow> (string list \<times> go_err option \<times> handler \<times> 'w) go_result" where
  "event_loop bh [] hw = Ok ([], None, hw)"
| "event_loop bh (ev # evs) hw =
     (case getLocation (ev_order ev) (rs_vertex (ev_status ev)) of
        Panic m \<Rightarrow> Panic m
      | Fail _ \<Rightarrow>
          (case event_loop bh evs hw of
             Ok (ids, r) \<Rightarrow> Ok (rs_debug_id (ev_status ev) # ids, r)
           | Fail e \<Rightarrow> Fail e | Panic m \<Rightarrow> Panic m)
      | Ok locs \<Rightarrow>
          (case Handler_handle bh (ev_status ev) locs hw of
             (Some e, hw') \<Rightarrow> Ok ([], Some e, hw')
           | (None, hw') \<Rightarrow>
               (case event_loop bh evs hw' of
                  Ok (ids, r) \<Rightarrow> Ok (rs_debug_id (ev_status ev) # ids, r)
                | Fail e \<Rightarrow> Fail e | Panic m \<Rightarrow> Panic m)))"

text \<open>Steps without a location are continued without asking the handler.\<close>

lemma event_loop_unlocated:
  "\<forall>e \<in> set pre. \<exists>err. getLocation (ev_order e) (rs_vertex (ev_status e)) = Fail err \<Longrightarrow>
   event_loop bh (pre @ evs) hw =
     (case event_loop bh evs hw of
        Ok (ids, r) \<Rightarrow> Ok (map (\<lambda>e. rs_debug_id (ev_status e)) pre @ ids, r)
      | Fail e \<Rightarrow> Fail e | Panic m \<Rightarrow> Panic m)"
  by (induction pre) (auto split: go_result.split)

text \<open>Only one loop at a time: a second call of \<open>handle\<close> returns an error at once.\<close>

definition handle_enter :: "bool \<Rightarrow> go_err + bool" where
  "handle_enter started =
     (if started then Inl (Errorf ''on going handler exists'' []) else Inr True)"

section \<open>Lemmas about results\<close>

definition result_id :: "('r \<Rightarrow> 'ref option) \<Rightarrow> ('ref \<Rightarrow> string) \<Rightarrow> 'r option \<Rightarrow> string" where
  "result_id sys ref_id r = (case r of None \<Rightarrow> [] | Some res \<Rightarrow> ref_id (the (sys res)))"

text \<open>The slots still to fill are empty; a registered key stays registered.\<close>

lemma register_loop_ids:
  "register_loop sys ref_id rs (length pre) (pre @ replicate (length rs) [], m) = ((ids, None), m') \<Longrightarrow>
   ids = pre @ map (result_id sys ref_id) rs \<and> (\<forall>res. Some res \<in> set rs \<longrightarrow> sys res \<noteq> None)"
proof (induction rs arbitrary: pre m)
  case (Cons r rs)
  have step: "register_loop sys ref_id rs (length (pre @ [result_id sys ref_id r]))
       ((pre @ [result_id sys ref_id r]) @ replicate (length rs) [], m'') = ((ids, None), m')"
    if "register_loop sys ref_id rs (Suc (length pre))
       ((pre @ [] # replicate (length rs) [])[length pre := result_id sys ref_id r], m'') = ((ids, None), m')"
    for m''
    using that by (simp add: list_update_append)
  show ?case
  proof (cases r)
    case None
    with Cons.prems have "register_loop sys ref_id rs (Suc (length pre))
       ((pre @ [] # replicate (length rs) [])[length pre := result_id sys ref_id r], m) = ((ids, None), m')"
      by (simp add: list_update_append result_id_def)
    from Cons.IH [OF step [OF this]] None show ?thesis
      by simp
  next
    case (Some res)
    with Cons.prems obtain ref where "sys res = Some ref"
      and "register_loop sys ref_id rs (Suc (length pre))
       ((pre @ [] # replicate (length rs) [])[length pre := result_id sys ref_id r],
        AList.update (ref_id ref) ref m) = ((ids, None), m')"
      by (auto simp: result_id_def split: option.splits)
    from Cons.IH [OF step [OF this(2)]] Some this(1) show ?thesis
      by auto
  qed
qed simp

lemma register_loop_keeps:
  "map_of (snd st) k \<noteq> None \<Longrightarrow> map_of (snd (register_loop sys ref_id rs i st)) k \<noteq> None"
  by (induction rs arbitrary: i st) (auto split: option.splits)

lemma register_loop_registers:
  "register_loop sys ref_id rs i st = ((ids, None), m') \<Longrightarrow> Some res \<in> set rs \<Longrightarrow>
   map_of m' (ref_id (the (sys res))) \<noteq> None"
proof (induction rs arbitrary: i st)
  case (Cons r rs)
  show ?case
  proof (cases "r = Some res")
    case True
    with Cons.prems obtain ref where "sys res = Some ref"
      and rest: "register_loop sys ref_id rs (Suc i)
         ((fst st)[i := ref_id ref], AList.update (ref_id ref) ref (snd st)) = ((ids, None), m')"
      by (auto split: option.splits)
    with register_loop_keeps [of "((fst st)[i := ref_id ref], AList.update (ref_id ref) ref (snd st))"
        "ref_id ref" sys ref_id rs "Suc i"]
    show ?thesis by simp
  next
    case False
    with Cons.prems have "Some res \<in> set rs"
      by simp
    moreover from Cons.prems(1) obtain st' where
      "register_loop sys ref_id rs (Suc i) st' = ((ids, None), m')"
      by (simp split: option.splits)
    ultimately show ?thesis
      using Cons.IH by blast
  qed
qed simp

definition refs_ok :: "('ref \<Rightarrow> string) \<Rightarrow> (string \<times> 'ref) list \<Rightarrow> bool" where
  "refs_ok ref_id m \<longleftrightarrow> (\<forall>k ref. map_of m k = Some ref \<longrightarrow> ref_id ref = k)"

lemma refs_ok_update: "refs_ok ref_id m \<Longrightarrow> refs_ok ref_id (AList.update (ref_id ref) ref m)"
  by (simp add: refs_ok_def)

lemma register_loop_refs_ok:
  "refs_ok ref_id (snd st) \<Longrightarrow> refs_ok ref_id (snd (register_loop sys ref_id rs i st))"
  by (induction rs arbitrary: i st) (simp_all add: refs_ok_update split: option.split)

lemma zip_map_same: "zip xs (map f xs) = map (\<lambda>x. (x, f x)) xs"
  by (induction xs) auto

lemma getResultMounts_exec:
  "op_kind_of op = Op_Exec ex \<Longrightarrow>
   getResultMounts clone op inputs outputs =
     (map (mount_input clone inputs) (ex_mounts ex),
      map (\<lambda>m. mount_output clone outputs (m, mount_input clone inputs m)) (ex_mounts ex))"
  by (simp add: getResultMounts_def Let_def zip_map_same comp_def)

section \<open>A session with the default breakpoint\<close>

text \<open>A client that records the steps it is stopped at and always continues.\<close>

definition record_stop :: "registered_status list break_handler" where
  "record_stop info locs hits hw = (None, fst hw, snd hw @ [info])"

definition event_located :: "debug_event \<Rightarrow> bool" where
  "event_located ev \<longleftrightarrow> concat (map (locs_in (rs_vertex (ev_status ev))) (ev_order ev)) \<noteq> []"

definition event_failed :: "debug_event \<Rightarrow> bool" where
  "event_failed ev \<longleftrightarrow> rs_err (ev_status ev) \<noteq> None"

definition event_ok :: "debug_event \<Rightarrow> bool" where
  "event_ok ev \<longleftrightarrow> (\<forall>s \<in> set (ev_order ev). source_ok s)"

definition default_handler :: "handler \<Rightarrow> bool" where
  "default_handler h \<longleftrightarrow> handler_inv h \<and> Get (h_breakpoints h) = [''on-fail'' \<mapsto> OnFail] \<and>
     \<not> h_breakEachVertex h \<and> \<not> h_disableBreakpoints h \<and> h_stopOnEntry h"

text \<open>The steps such a session stops at: the entry, then the failures, among the located steps.\<close>

fun default_stops :: "bool \<Rightarrow> debug_event list \<Rightarrow> registered_status list" where
  "default_stops entried [] = []"
| "default_stops entried (ev # evs) =
     (if event_located ev \<and> (\<not> entried \<or> event_failed ev)
      then ev_status ev # default_stops True evs
      else default_stops entried evs)"

lemma default_handler_handle:
  assumes "default_handler h"
  shows "Handler_handle record_stop info locs (h, w) =
    (if locs \<noteq> [] \<and> (\<not> h_entried h \<or> rs_err info \<noteq> None)
     then (None, h\<lparr>h_entried := True\<rparr>, w @ [info]) else (None, h, w))"
proof -
  have "stops_at h info locs \<longleftrightarrow> locs \<noteq> [] \<and> (\<not> h_entried h \<or> rs_err info \<noteq> None)"
    using assms by (auto simp: default_handler_def stops_at_def hit_info_def split: if_splits)
  then show ?thesis
    using assms by (simp add: default_handler_def Handler_handle_eq record_stop_def)
qed

lemma default_handler_entried: "default_handler h \<Longrightarrow> default_handler (h\<lparr>h_entried := True\<rparr>)"
  by (simp add: default_handler_def handler_inv_def)

lemma event_loop_default:
  "default_handler h \<Longrightarrow> \<forall>ev \<in> set evs. event_ok ev \<Longrightarrow>
   \<exists>h'. event_loop record_stop evs (h, w) =
     Ok (map (\<lambda>ev. rs_debug_id (ev_status ev)) evs, None, h', w @ default_stops (h_entried h) evs)"
proof (induction evs arbitrary: h w)
  case (Cons ev evs)
  let ?locs = "concat (map (locs_in (rs_vertex (ev_status ev))) (ev_order ev))"
  have loc: "getLocation (ev_order ev) (rs_vertex (ev_status ev)) =
      (if ?locs = [] then Fail (Errorf ''location info for vertex %v not found'' [rs_vertex (ev_status ev)])
       else Ok ?locs)"
    using Cons.prems(2) by (intro getLocation_ok) (simp add: event_ok_def)
  have rest: "\<exists>h'. event_loop record_stop evs (h1, w1) =
      Ok (map (\<lambda>ev. rs_debug_id (ev_status ev)) evs, None, h', w1 @ default_stops (h_entried h1) evs)"
    if "default_handler h1" for h1 w1
    using that Cons.prems(2) by (intro Cons.IH) auto
  show ?case
  proof (cases "?locs = []")
    case True
    with loc rest [OF Cons.prems(1), of w] show ?thesis
      by (auto simp: event_located_def simp del: concat_eq_Nil_conv)
  next
    case False
    then show ?thesis
      using loc rest [OF Cons.prems(1), of w]
        rest [OF default_handler_entried [OF Cons.prems(1)], of "w @ [ev_status ev]"]
      by (auto simp: event_located_def event_failed_def default_handler_handle [OF Cons.prems(1)]
          simp del: concat_eq_Nil_conv)
  qed
qed simp

lemma default_stops_True: "default_stops True evs = map ev_status (filter event_failed (filter event_located evs))"
  by (induction evs) auto

lemma default_stops_False:
  "default_stops False evs =
     (case filter event_located evs of
        [] \<Rightarrow> []
      | ev # rest \<Rightarrow> ev_status ev # map ev_status (filter event_failed rest))"
  by (induction evs) (auto simp: default_stops_True)

lemma default_handler_withDebug:
  "default_handler (withDebug_handler
     \<lparr>dc_breakpoints = None, dc_stopOnEntry = True, dc_disableBreakpoints = False\<rparr>)"
  by (auto simp: default_handler_def withDebug_handler_def handler_inv_def bps_inv_def NewOnFailBreakpoint_def)

section \<open>Properties\<close>

text \<open>
  C23. A debug session with the default configuration (stop on entry, the on-fail
  breakpoint) stops at the first step that has a source location and then at exactly the
  located steps that failed; every step is released, in order, and the loop goes on.
\<close>

theorem default_session_stops:
  assumes "\<forall>ev \<in> set evs. event_ok ev"
  shows "\<exists>h'. event_loop record_stop evs
            (withDebug_handler \<lparr>dc_breakpoints = None, dc_stopOnEntry = True, dc_disableBreakpoints = False\<rparr>, [])
       = Ok (map (\<lambda>ev. rs_debug_id (ev_status ev)) evs, None, h',
             (case filter event_located evs of
                [] \<Rightarrow> []
              | ev # rest \<Rightarrow> ev_status ev # map ev_status (filter event_failed rest)))"
  using event_loop_default [OF default_handler_withDebug assms, of "[]"]
  by (simp add: default_stops_False withDebug_handler_def)

definition sample_event :: "string \<Rightarrow> string \<Rightarrow> go_err option \<Rightarrow> debug_event" where
  "sample_event ident v err =
     \<lparr>ev_status = \<lparr>rs_name = v, rs_debug_id = ident, rs_input_ids = [], rs_mount_ids = [], rs_vertex = v,
        rs_op = \<lparr>op_kind_of = Op_Other, op_platform = 0, op_constraints = 0\<rparr>, rs_err = err\<rparr>,
      ev_order = [\<lparr>ps_addr = 0,
        ps_locations = [(''a'', [\<lparr>sl_index = 0, sl_ranges = [\<lparr>start_line = 1, end_line = 2\<rparr>]\<rparr>]),
                        (''b'', [\<lparr>sl_index = 0, sl_ranges = [\<lparr>start_line = 3, end_line = 3\<rparr>]\<rparr>])],
        ps_infos = [\<lparr>si_addr = 0, si_filename = ''Dockerfile'', si_data = []\<rparr>]\<rparr>]\<rparr>"

theorem default_session_stops_witness:
  "\<exists>h' stops. event_loop record_stop
      [sample_event ''1'' ''a'' None, sample_event ''2'' ''b'' None, sample_event ''3'' ''b'' (Some ErrTooLong)]
      (withDebug_handler \<lparr>dc_breakpoints = None, dc_stopOnEntry = True, dc_disableBreakpoints = False\<rparr>, [])
    = Ok ([''1'', ''2'', ''3''], None, h', stops) \<and> map rs_debug_id stops = [''1'', ''3'']"
proof -
  let ?evs = "[sample_event ''1'' ''a'' None, sample_event ''2'' ''b'' None,
               sample_event ''3'' ''b'' (Some ErrTooLong)]"
  have ok: "\<forall>ev \<in> set ?evs. event_ok ev"
    by (simp add: sample_event_def event_ok_def source_ok_def)
  have located: "filter event_located ?evs = ?evs"
    by (simp add: sample_event_def event_located_def locs_in_def)
  show ?thesis
    using default_session_stops [OF ok]
    unfolding located by (auto simp: sample_event_def event_failed_def)
qed

text \<open>
  However the Go map of sources is ranged over, a step's locations are found in the
  same way: the lookup fails in one order exactly when it fails in the other, and it
  finds the same locations, as often, in both.
\<close>

theorem location_lookup_order:
  assumes "mset order = mset order'" "\<forall>s \<in> set order. source_ok s"
  shows "(\<exists>e. getLocation order v = Fail e \<and> getLocation order' v = Fail e) \<or>
         (\<exists>locs locs'. getLocation order v = Ok locs \<and> getLocation order' v = Ok locs' \<and>
                       mset locs = mset locs' \<and> locs \<noteq> [])"
proof -
  have set: "set order = set order'"
    using assms(1) by (rule mset_eq_setD)
  have "mset (concat (map (locs_in v) xs)) = (\<Sum>s \<in># mset xs. mset (locs_in v s))" for xs
    by (induction xs) auto
  then have eq: "mset (concat (map (locs_in v) order)) = mset (concat (map (locs_in v) order'))"
    using assms(1) by metis
  then have "concat (map (locs_in v) order) = [] \<longleftrightarrow> concat (map (locs_in v) order') = []"
    by (metis mset_zero_iff)
  then show ?thesis
    using assms(2) set eq by (cases "concat (map (locs_in v) order) = []")
      (auto simp: getLocation_ok simp del: concat_eq_Nil_conv mset_concat mset_map)
qed

theorem location_lookup_order_witness:
  "let s = \<lparr>ps_addr = 0, ps_locations = [], ps_infos = []\<rparr>;
       t = \<lparr>ps_addr = 1, ps_locations = [(''v'', [\<lparr>sl_index = 0, sl_ranges = []\<rparr>])],
            ps_infos = [\<lparr>si_addr = 0, si_filename = ''f'', si_data = []\<rparr>]\<rparr>
   in \<exists>locs locs'. getLocation [s, t] ''v'' = Ok locs \<and> getLocation [t, s] ''v'' = Ok locs' \<and> mset locs = mset locs'"
proof -
  let ?s = "\<lparr>ps_addr = 0, ps_locations = [], ps_infos = []\<rparr> :: pb_source"
  let ?t = "\<lparr>ps_addr = 1, ps_locations = [(''v'', [\<lparr>sl_index = 0, sl_ranges = []\<rparr>])],
            ps_infos = [\<lparr>si_addr = 0, si_filename = ''f'', si_data = []\<rparr>]\<rparr> :: pb_source"
  have perm: "mset [?s, ?t] = mset [?t, ?s]" and ok: "\<forall>x \<in> set [?s, ?t]. source_ok x"
    by (simp_all add: source_ok_def)
  have "getLocation [?s, ?t] ''v'' \<noteq> Fail e" for e
    by (simp add: getLocation_def)
  then show ?thesis
    using location_lookup_order [OF perm ok, of "''v''"] unfolding Let_def by blast
qed

text \<open>
  C20. Solves run concurrently and share their sources, so additions and deletions of the
  table interleave in any order. After any history in which a source is at no time deleted
  more often than it was added, as each solve deletes what it added before, the source is in
  the table exactly when it has been added more often than deleted: the counts never make a
  source that a solve still uses disappear, and none stays when the last solve is done.
\<close>

theorem sources_present_while_used:
  assumes "length ops < 2 ^ 63 - 1" "paired s ops"
  shows "src_present (foldl (source_step addLocationSource deleteLocationSource) None ops) s
         \<longleftrightarrow> count_list ops (DeleteSource s) < count_list ops (AddSource s)"
proof -
  have "src_rep (foldl (source_step addLocationSource deleteLocationSource) None ops) (fold in_use ops {#})"
    using srcs.rep_run [of None "{#}" ops] assms(1) by simp
  from srcs.rep_present [OF this, of s]
  have "src_present (foldl (source_step addLocationSource deleteLocationSource) None ops) s \<longleftrightarrow>
      0 < count (fold in_use ops {#}) s"
    by simp
  with count_in_use [OF assms(2)] show ?thesis
    by linarith
qed

theorem sources_present_while_used_witness:
  "src_present (foldl (source_step addLocationSource deleteLocationSource) None
     [AddSource (7::nat), AddSource 7, AddSource 8, DeleteSource 7, DeleteSource 8]) 7"
proof -
  have "paired 7 [AddSource (7::nat), AddSource 7, AddSource 8, DeleteSource 7, DeleteSource 8]"
    by (simp add: paired_def)
  then show ?thesis
    using sources_present_while_used [of "[AddSource (7::nat), AddSource 7, AddSource 8, DeleteSource 7, DeleteSource 8]" 7]
    by simp
qed

text \<open>
  A solve with a source always evaluates its request eagerly, finds its source in the
  table, returns what the wrapped solve returns, and leaves the table as it found it.
\<close>

theorem solve_brackets_source:
  assumes "src_rep d M" "size M < 2 ^ 63 - 1" "req_source req = Some s"
    and "\<And>d'. src_rep d' (add_mset s M) \<Longrightarrow>
           src_rep (snd (solve (req\<lparr>req_evaluate := True\<rparr>) d')) (add_mset s M)"
  shows "let d1 = addLocationSource d s
         in src_present d1 s \<and>
            fst (debug_Solve solve req d) = fst (solve (req\<lparr>req_evaluate := True\<rparr>) d1) \<and>
            src_rep (snd (debug_Solve solve req d)) M"
  using srcs.bracket [OF assms(1,2), of s "\<lambda>d'. snd (solve (req\<lparr>req_evaluate := True\<rparr>) d')"] assms(3,4)
  by (simp add: debug_Solve_def Let_def case_prod_unfold)

theorem solve_brackets_source_witness:
  "let solve = (\<lambda>req d. (src_present d (3::nat), d));
       r = debug_Solve solve \<lparr>req_evaluate = False, req_source = Some 3\<rparr> None
   in fst r \<and> src_rep (snd r) {#}"
proof -
  let ?solve = "\<lambda>req d. (src_present d (3::nat), d)"
  let ?req = "\<lparr>req_evaluate = False, req_source = Some (3::nat)\<rparr>"
  show ?thesis
    using solve_brackets_source [of None "{#}" ?req 3 ?solve] by (simp add: Let_def)
qed

text \<open>
  C22. When the results of a step are registered without an error, there is one identifier
  per result, empty exactly for the missing results, and every other one is the
  identifier of that result's worker reference and resolves to a reference with it.
\<close>

theorem registered_ids_resolve:
  assumes "registerResultIDs sys ref_id results refs = ((ids, None), refs')" "refs_ok ref_id refs"
  shows "length ids = length results \<and>
    (\<forall>i < length results. case results ! i of
        None \<Rightarrow> ids ! i = []
      | Some r \<Rightarrow> \<exists>ref ref'. sys r = Some ref \<and> ids ! i = ref_id ref \<and>
                     WorkerRefByID refs' (ids ! i) = Some ref' \<and> ref_id ref' = ids ! i)"
proof -
  have loop: "register_loop sys ref_id results (length ([] :: string list))
      ([] @ replicate (length results) [], refs) = ((ids, None), refs')"
    using assms(1) by (simp add: registerResultIDs_def)
  note ids = register_loop_ids [OF loop]
  have ok: "refs_ok ref_id refs'"
    using register_loop_refs_ok [of ref_id "([] @ replicate (length results) [], refs)" sys results 0] loop assms(2)
    by simp
  have "\<exists>ref ref'. sys r = Some ref \<and> ids ! i = ref_id ref \<and>
      WorkerRefByID refs' (ids ! i) = Some ref' \<and> ref_id ref' = ids ! i"
    if i: "i < length results" "results ! i = Some r" for i r
  proof -
    have mem: "Some r \<in> set results"
      using i nth_mem by metis
    then obtain ref where ref: "sys r = Some ref"
      using ids by auto
    moreover have id_i: "ids ! i = ref_id ref"
      using i ids ref by (simp add: result_id_def)
    moreover obtain ref' where "map_of refs' (ref_id ref) = Some ref'"
      using register_loop_registers [OF loop mem] ref by auto
    ultimately show ?thesis
      using ok by (auto simp: WorkerRefByID_def refs_ok_def)
  qed
  with ids show ?thesis
    by (auto simp: result_id_def split: option.splits)
qed

theorem registered_ids_resolve_witness:
  "registerResultIDs Some (\<lambda>ref. show_nat ref) [Some (4::nat), None] [] = (([''4'', []], None), [(''4'', 4)]) \<and>
   WorkerRefByID [(''4'', 4)] ''4'' = Some (4::nat)"
proof -
  have reg: "registerResultIDs Some (\<lambda>ref. show_nat ref) [Some (4::nat), None] [] =
      (([''4'', []], None), [(''4'', 4)])"
    by code_simp
  have "refs_ok show_nat []"
    by (simp add: refs_ok_def)
  from registered_ids_resolve [OF reg this] reg show ?thesis
    by (auto simp: WorkerRefByID_def dest: spec [of _ 0])
qed

text \<open>
  Reporting never hides the outcome of an operation: the outputs are the operation's,
  a failed operation returns its own error whatever becomes of the report, and an error of
  the report (a cancelled session) is returned only for an operation that succeeded. The
  reported status carries the operation's error, and for a RUN step that succeeded it has
  one input and one mount per mount of the step.
\<close>

theorem exec_outcome_preserved:
  "let (outputs, err) = exec inputs;
       status = exec_status clone exec_err v inputs (outputs, err);
       nErr = notify status
   in wrapper_Exec clone exec_err v notify exec inputs = (outputs, case err of Some e \<Rightarrow> Some e | None \<Rightarrow> nErr) \<and>
      st_err status = err \<and> st_vertex status = vx_digest v \<and>
      (\<forall>ex. op_kind_of (vx_op v) = Op_Exec ex \<and> err = None \<longrightarrow>
         length (st_inputs status) = length (ex_mounts ex) \<and> length (st_mounts status) = length (ex_mounts ex))"
  by (auto simp: wrapper_Exec_def exec_status_def getResultMounts_exec split: prod.splits option.splits)

theorem exec_outcome_preserved_witness:
  "let ex = \<lparr>ex_mounts = [\<lparr>mnt_input = 0, mnt_output = 0, mnt_selector = [], mnt_dest = ''/'', mnt_readonly = False,
              mnt_type = MountType_BIND, mnt_cache_opt = 0, mnt_secret_opt = 0, mnt_ssh_opt = 0\<rparr>],
              ex_network = NetMode_NONE, ex_security = SecurityMode_SANDBOX, ex_cwd = ''/'', ex_env = [], ex_user = []\<rparr>;
       v = \<lparr>vx_name = ''RUN'', vx_digest = ''d'', vx_description = [],
            vx_op = \<lparr>op_kind_of = Op_Exec ex, op_platform = 0, op_constraints = 0\<rparr>\<rparr>
   in length (st_mounts (exec_status (\<lambda>r::nat. r) (\<lambda>_. None) v [1] ([2], None))) = 1"
proof -
  let ?ex = "\<lparr>ex_mounts = [\<lparr>mnt_input = 0, mnt_output = 0, mnt_selector = [], mnt_dest = ''/'', mnt_readonly = False,
              mnt_type = MountType_BIND, mnt_cache_opt = 0, mnt_secret_opt = 0, mnt_ssh_opt = 0\<rparr>],
              ex_network = NetMode_NONE, ex_security = SecurityMode_SANDBOX, ex_cwd = ''/'', ex_env = [], ex_user = []\<rparr> :: exec_op"
  let ?v = "\<lparr>vx_name = ''RUN'', vx_digest = ''d'', vx_description = [],
            vx_op = \<lparr>op_kind_of = Op_Exec ?ex, op_platform = 0, op_constraints = 0\<rparr>\<rparr>"
  show ?thesis
    using exec_outcome_preserved [of "\<lambda>_. ([2::nat], None)" "[1]" "\<lambda>r. r" "\<lambda>_. None" ?v "\<lambda>_. None"]
    by (simp add: Let_def)
qed

end
