(* ===== verification/Pausing.thy ===== *)
theory Pausing
  imports Controller
begin

text \<open>
  The protocol between the steps of a build and the debugger's event loop
  (\<open>wait\<close>, \<open>continueID\<close>, \<open>notifyAndWait\<close> and the loop of \<open>debugController.handle\<close> in
  \<open>pkg/buildkit/controller.go\<close>) as a step relation. Any number of build steps, named by
  their debug identifiers, run beside the loop; each sends its event over an unbuffered
  channel and then waits for its own pause channel to be closed, unless its context is
  cancelled. The loop takes one event at a time; the outcome of the handler it calls is
  not determined here.
\<close>

section \<open>Pause channels\<close>

text \<open>
  The map \<open>pause\<close>, the next channel to be made, and the channels that are closed.
  Closing a closed channel panics.
\<close>

record pauses =
  pz_pause :: "(string \<times> nat) list"
  pz_next :: nat
  pz_closed :: "nat list"

definition wait :: "pauses \<Rightarrow> string \<Rightarrow> pauses \<times> nat" where
  "wait p i = (p\<lparr>pz_pause := AList.update i (pz_next p) (pz_pause p), pz_next := Suc (pz_next p)\<rparr>, pz_next p)"

definition continueID :: "pauses \<Rightarrow> string \<Rightarrow> pauses go_result" where
  "continueID p i =
     (case map_of (pz_pause p) i of
        None \<Rightarrow> Ok p
      | Some ch \<Rightarrow>
          if List.member (pz_closed p) ch then Panic ''close of closed channel''
          else Ok (p\<lparr>pz_closed := ch # pz_closed p, pz_pause := AList.delete i (pz_pause p)\<rparr>))"

section \<open>The system\<close>

datatype phase = Absent | Sending nat | Waiting nat | Finished "go_err option"

datatype loop_phase = Listening | Handling string | Stopped go_err

text \<open>
  \<open>ct_released\<close> is a history variable: the identifiers the loop has continued, which the
  code does not record.
\<close>

record ctl =
  ct_pauses :: pauses
  ct_phase :: "string \<Rightarrow> phase"
  ct_loop :: loop_phase
  ct_released :: "string list"

definition ctl_start :: ctl where
  "ctl_start = \<lparr>ct_pauses = \<lparr>pz_pause = [], pz_next = 0, pz_closed = []\<rparr>, ct_phase = (\<lambda>_. Absent),
                ct_loop = Listening, ct_released = []\<rparr>"

text \<open>
  One rule per transition: a step calls \<open>notifyAndWait\<close>; its event is received; either of
  its two selects sees the context done; the loop continues the step it handles, or
  returns with the handler's error; a step sees its channel closed; a reload enters a new
  loop on the same controller.
\<close>

inductive ctl_step :: "ctl \<Rightarrow> ctl \<Rightarrow> bool" where
  notify: "ct_phase s i = Absent \<Longrightarrow> wait (ct_pauses s) i = (p, ch) \<Longrightarrow>
    ctl_step s (s\<lparr>ct_pauses := p, ct_phase := (ct_phase s)(i := Sending ch)\<rparr>)"
| deliver: "ct_phase s i = Sending ch \<Longrightarrow> ct_loop s = Listening \<Longrightarrow>
    ctl_step s (s\<lparr>ct_phase := (ct_phase s)(i := Waiting ch), ct_loop := Handling i\<rparr>)"
| cancel_send: "ct_phase s i = Sending ch \<Longrightarrow>
    ctl_step s (s\<lparr>ct_phase := (ct_phase s)(i := Finished (Some ErrCanceled))\<rparr>)"
| proceed: "ct_loop s = Handling i \<Longrightarrow> continueID (ct_pauses s) i = Ok p \<Longrightarrow>
    ctl_step s (s\<lparr>ct_pauses := p, ct_loop := Listening, ct_released := i # ct_released s\<rparr>)"
| stop: "ct_loop s = Handling i \<Longrightarrow> ctl_step s (s\<lparr>ct_loop := Stopped e\<rparr>)"
| resume: "ct_phase s i = Waiting ch \<Longrightarrow> List.member (pz_closed (ct_pauses s)) ch \<Longrightarrow>
    ctl_step s (s\<lparr>ct_phase := (ct_phase s)(i := Finished None)\<rparr>)"
| cancel_wait: "ct_phase s i = Waiting ch \<Longrightarrow>
    ctl_step s (s\<lparr>ct_phase := (ct_phase s)(i := Finished (Some ErrCanceled))\<rparr>)"
| reenter: "ct_loop s = Stopped e \<Longrightarrow> ctl_step s (s\<lparr>ct_loop := Listening\<rparr>)"

definition chan_of :: "ctl \<Rightarrow> string \<Rightarrow> nat option" where
  "chan_of s i = map_of (pz_pause (ct_pauses s)) i"

text \<open>
  How the pause map, the channels and the steps agree. \<open>owner\<close>: which channel a step waits
  for; every channel in the map is open and belongs to one step.
\<close>

definition ctl_inv :: "ctl \<Rightarrow> bool" where
  "ctl_inv s \<longleftrightarrow>
     (\<forall>i ch. chan_of s i = Some ch \<longrightarrow> ch < pz_next (ct_pauses s) \<and> ch \<notin> set (pz_closed (ct_pauses s))) \<and>
     (\<forall>ch \<in> set (pz_closed (ct_pauses s)). ch < pz_next (ct_pauses s)) \<and>
     (\<forall>i j ch. chan_of s i = Some ch \<longrightarrow> chan_of s j = Some ch \<longrightarrow> i = j) \<and>
     (\<forall>i. ct_phase s i = Absent \<longrightarrow> chan_of s i = None \<and> i \<notin> set (ct_released s)) \<and>
     (\<forall>i ch. ct_phase s i = Sending ch \<longrightarrow> chan_of s i = Some ch \<and> i \<notin> set (ct_released s)) \<and>
     (\<forall>i ch. ct_phase s i = Waiting ch \<longrightarrow> ch < pz_next (ct_pauses s) \<and>
        (chan_of s i = Some ch \<and> ch \<notin> set (pz_closed (ct_pauses s)) \<or>
         i \<in> set (ct_released s) \<and> ch \<in> set (pz_closed (ct_pauses s)))) \<and>
     (\<forall>i ch. ct_phase s i = Waiting ch \<longrightarrow> (\<forall>j. chan_of s j = Some ch \<longrightarrow> j = i)) \<and>
     (\<forall>i. ct_phase s i = Finished None \<longrightarrow> i \<in> set (ct_released s)) \<and>
     (\<forall>i. ct_loop s = Handling i \<longrightarrow> chan_of s i \<noteq> None \<and> i \<notin> set (ct_released s) \<and>
        (\<forall>ch. ct_phase s i \<noteq> Sending ch) \<and> ct_phase s i \<noteq> Absent) \<and>
     (\<forall>i. i \<in> set (ct_released s) \<longrightarrow> chan_of s i = None) \<and> distinct (ct_released s)"

lemma chan_of_simps [simp]:
  "chan_of (s\<lparr>ct_phase := x\<rparr>) = chan_of s"
  "chan_of (s\<lparr>ct_loop := l\<rparr>) = chan_of s"
  "chan_of (s\<lparr>ct_released := r\<rparr>) = chan_of s"
  "chan_of (s\<lparr>ct_pauses := p\<rparr>) i = map_of (pz_pause p) i"
  by (auto simp: chan_of_def fun_eq_iff)

lemma wait_simps:
  "wait (ct_pauses s) i = (p, ch) \<Longrightarrow> ch = pz_next (ct_pauses s) \<and> pz_next p = Suc ch \<and>
     pz_closed p = pz_closed (ct_pauses s) \<and> map_of (pz_pause p) = (chan_of s)(i \<mapsto> ch)"
  by (auto simp: wait_def chan_of_def fun_eq_iff)

lemma continueID_known:
  "chan_of s i = Some ch \<Longrightarrow> continueID (ct_pauses s) i = Ok p \<Longrightarrow>
     pz_next p = pz_next (ct_pauses s) \<and> pz_closed p = ch # pz_closed (ct_pauses s) \<and>
     map_of (pz_pause p) = (chan_of s)(i := None)"
  by (auto simp: continueID_def chan_of_def fun_eq_iff split: if_splits)

lemma ctl_inv_start: "ctl_inv ctl_start"
  by (simp add: ctl_inv_def ctl_start_def chan_of_def)

lemma ctl_inv_notify:
  assumes inv: "ctl_inv s" and absent: "ct_phase s i = Absent" and w: "wait (ct_pauses s) i = (p, ch)"
  shows "ctl_inv (s\<lparr>ct_pauses := p, ct_phase := (ct_phase s)(i := Sending ch)\<rparr>)"
  using inv absent wait_simps [OF w] unfolding ctl_inv_def
  by (simp add: less_Suc_eq) (metis less_irrefl option.inject phase.distinct(1))

lemma ctl_inv_deliver:
  assumes "ctl_inv s" "ct_phase s i = Sending ch" "ct_loop s = Listening"
  shows "ctl_inv (s\<lparr>ct_phase := (ct_phase s)(i := Waiting ch), ct_loop := Handling i\<rparr>)"
  using assms unfolding ctl_inv_def by (simp; metis)

lemma ctl_inv_finish:
  assumes "ctl_inv s" "ct_phase s i = Sending ch \<or> ct_phase s i = Waiting ch"
  shows "ctl_inv (s\<lparr>ct_phase := (ct_phase s)(i := Finished (Some e))\<rparr>)"
  using assms unfolding ctl_inv_def by (simp; metis)

lemma ctl_inv_resume:
  assumes "ctl_inv s" "ct_phase s i = Waiting ch" "ch \<in> set (pz_closed (ct_pauses s))"
  shows "ctl_inv (s\<lparr>ct_phase := (ct_phase s)(i := Finished None)\<rparr>)"
  using assms unfolding ctl_inv_def by (simp; metis)

lemma ctl_inv_loop:
  assumes "ctl_inv s" "\<forall>i. l \<noteq> Handling i"
  shows "ctl_inv (s\<lparr>ct_loop := l\<rparr>)"
  using assms unfolding ctl_inv_def by simp

lemma ctl_inv_proceed:
  assumes inv: "ctl_inv s" and loop: "ct_loop s = Handling i" and c: "continueID (ct_pauses s) i = Ok p"
  shows "ctl_inv (s\<lparr>ct_pauses := p, ct_loop := Listening, ct_released := i # ct_released s\<rparr>)"
proof -
  obtain ch where ch: "chan_of s i = Some ch"
    using inv loop unfolding ctl_inv_def by blast
  show ?thesis
    using inv loop ch continueID_known [OF ch c] unfolding ctl_inv_def
    by (simp; metis option.inject)
qed

lemmas ctl_inv_steps = ctl_inv_notify ctl_inv_deliver ctl_inv_finish ctl_inv_resume ctl_inv_loop ctl_inv_proceed

lemma ctl_step_inv: "ctl_step s t \<Longrightarrow> ctl_inv s \<Longrightarrow> ctl_inv t"
  by (induction rule: ctl_step.induct) (simp_all add: ctl_inv_steps)

interpretation ctl: inv_system "\<lambda>s. s = ctl_start" ctl_step ctl_inv
  by unfold_locales (auto simp: ctl_inv_start ctl_step_inv)

abbreviation ctl_reach :: "ctl \<Rightarrow> bool" where
  "ctl_reach \<equiv> reach (\<lambda>s. s = ctl_start) ctl_step"

section \<open>Steps that nobody releases\<close>

text \<open>
  A step the loop will not handle any more: it is cancelled, or its event was received by a
  loop that stopped. Its pause entry is still there.
\<close>

definition abandoned :: "string \<Rightarrow> nat \<Rightarrow> ctl \<Rightarrow> bool" where
  "abandoned i ch s \<longleftrightarrow> ctl_inv s \<and> chan_of s i = Some ch \<and> ct_loop s \<noteq> Handling i \<and>
     (ct_phase s i = Waiting ch \<or> ct_phase s i = Finished (Some ErrCanceled))"

lemma continueID_other:
  "continueID q j = Ok p \<Longrightarrow> i \<noteq> j \<Longrightarrow> map_of (pz_pause p) i = map_of (pz_pause q) i"
  by (auto simp: continueID_def split: option.splits if_splits)

lemma abandoned_step: "ctl_step s t \<Longrightarrow> abandoned i ch s \<Longrightarrow> abandoned i ch t"
proof -
  assume st: "ctl_step s t" and ab: "abandoned i ch s"
  have inv: "ctl_inv s" and ci: "chan_of s i = Some ch" and nl: "ct_loop s \<noteq> Handling i"
    and ph: "ct_phase s i = Waiting ch \<or> ct_phase s i = Finished (Some ErrCanceled)"
    using ab by (auto simp: abandoned_def)
  have open_ch: "ch \<notin> set (pz_closed (ct_pauses s))"
    using inv ci unfolding ctl_inv_def by blast
  have "chan_of t i = Some ch \<and> ct_loop t \<noteq> Handling i \<and>
     (ct_phase t i = Waiting ch \<or> ct_phase t i = Finished (Some ErrCanceled))"
    using st
  proof cases
    case (notify j p c)
    with ci ph nl wait_simps [OF notify(3)] show ?thesis by auto
  next
    case (proceed j p)
    with ci ph nl continueID_other [OF proceed(3), of i] show ?thesis
      by (auto simp: chan_of_def)
  qed (use ci nl ph open_ch in auto)
  with ctl_step_inv [OF st inv] show ?thesis
    by (simp add: abandoned_def)
qed

lemma abandoned_steps: "ctl_step\<^sup>*\<^sup>* s t \<Longrightarrow> abandoned i ch s \<Longrightarrow> abandoned i ch t"
  by (induction rule: rtranclp_induct) (auto intro: abandoned_step)

section \<open>Properties\<close>

text \<open>
  C8. In every reachable state, continuing the step that the loop handles does not panic
  (its pause channel is closed at most once), closes the channel that this step waits for,
  and removes its pause entry.
\<close>

theorem continue_closes_once:
  assumes "ctl_reach s" "ct_loop s = Handling i"
  shows "\<exists>p. continueID (ct_pauses s) i = Ok p \<and> map_of (pz_pause p) i = None \<and>
     (\<forall>ch. ct_phase s i = Waiting ch \<longrightarrow> ch \<in> set (pz_closed p))"
proof -
  have inv: "ctl_inv s"
    using assms(1) by (rule ctl.reach_inv)
  obtain ch where ch: "chan_of s i = Some ch" "ch \<notin> set (pz_closed (ct_pauses s))"
    using inv assms(2) unfolding ctl_inv_def by blast
  have same: "ch' = ch" if "ct_phase s i = Waiting ch'" for ch'
    using inv assms(2) ch that unfolding ctl_inv_def by (metis option.inject)
  show ?thesis
    using ch same by (auto simp: continueID_def chan_of_def)
qed

definition ctl_sample :: ctl where
  "ctl_sample = \<lparr>ct_pauses = \<lparr>pz_pause = [(''a'', 0)], pz_next = 1, pz_closed = []\<rparr>,
     ct_phase = (\<lambda>_. Absent)(''a'' := Waiting 0), ct_loop = Handling ''a'', ct_released = []\<rparr>"

definition ctl_sending :: ctl where
  "ctl_sending = \<lparr>ct_pauses = \<lparr>pz_pause = [(''a'', 0)], pz_next = 1, pz_closed = []\<rparr>,
     ct_phase = (\<lambda>_. Absent)(''a'' := Sending 0), ct_loop = Listening, ct_released = []\<rparr>"

lemma ctl_sending_reach: "ctl_reach ctl_sending"
proof -
  have "ctl_step ctl_start ctl_sending"
    using ctl_step.notify [of ctl_start "''a''"] by (simp add: ctl_start_def ctl_sending_def wait_def)
  then show ?thesis
    by (auto intro: reach.intros)
qed

lemma ctl_sample_reach: "ctl_reach ctl_sample"
proof -
  have "ctl_step ctl_sending ctl_sample"
    using ctl_step.deliver [of ctl_sending "''a''" 0] by (simp add: ctl_sending_def ctl_sample_def)
  then show ?thesis
    using ctl_sending_reach by (rule reach_step [rotated])
qed

theorem continue_closes_once_witness:
  "\<exists>p. continueID (ct_pauses ctl_sample) ''a'' = Ok p \<and> 0 \<in> set (pz_closed p)"
  using continue_closes_once [OF ctl_sample_reach, of "''a''"] by (auto simp: ctl_sample_def)

text \<open>
  C4. No step of the build runs ahead of the debugger: a step whose \<open>notifyAndWait\<close> has
  returned without an error was released by the event loop before, each step is released
  at most once, and the step being handled has not been released yet.
\<close>

theorem no_step_runs_ahead:
  assumes "ctl_reach s"
  shows "(\<forall>i. ct_phase s i = Finished None \<longrightarrow> i \<in> set (ct_released s)) \<and> distinct (ct_released s) \<and>
     (\<forall>i. ct_loop s = Handling i \<longrightarrow> i \<notin> set (ct_released s) \<and> ct_phase s i \<noteq> Finished None)"
  using ctl.reach_inv [OF assms] unfolding ctl_inv_def by blast

theorem no_step_runs_ahead_witness: "ct_phase ctl_sample ''a'' \<noteq> Finished None"
  using no_step_runs_ahead [OF ctl_sample_reach] by (simp add: ctl_sample_def)

text \<open>
  When the handler ends the loop with an error (exit or reload) while a step is paused,
  nothing but the cancellation of the build's context ever lets that step go: in every
  later state, also after a reload has entered the loop again, it still waits or it was
  cancelled, and it never continues.
\<close>

theorem stopped_step_needs_cancel:
  assumes "ctl_reach s" "ct_loop s = Handling i" "ct_phase s i = Waiting ch"
    and "ctl_step\<^sup>*\<^sup>* (s\<lparr>ct_loop := Stopped e\<rparr>) t"
  shows "ct_phase t i = Waiting ch \<or> ct_phase t i = Finished (Some ErrCanceled)"
proof -
  have inv: "ctl_inv s"
    using assms(1) by (rule ctl.reach_inv)
  then have "chan_of s i = Some ch"
    using assms(2,3) unfolding ctl_inv_def by (metis option.exhaust)
  then have "abandoned i ch (s\<lparr>ct_loop := Stopped e\<rparr>)"
    using assms(3) ctl_inv_loop [OF inv] by (simp add: abandoned_def)
  then show ?thesis
    using abandoned_steps [OF assms(4)] by (simp add: abandoned_def)
qed

theorem stopped_step_needs_cancel_witness:
  "ctl_step (ctl_sample\<lparr>ct_loop := Stopped ErrReload\<rparr>) (ctl_sample\<lparr>ct_loop := Listening\<rparr>) \<and>
   ct_phase (ctl_sample\<lparr>ct_loop := Listening\<rparr>) ''a'' \<noteq> Finished None"
proof -
  have st: "ctl_step (ctl_sample\<lparr>ct_loop := Stopped ErrReload\<rparr>) (ctl_sample\<lparr>ct_loop := Listening\<rparr>)"
    using ctl_step.reenter [of "ctl_sample\<lparr>ct_loop := Stopped ErrReload\<rparr>" ErrReload] by simp
  have "ct_phase ctl_sample ''a'' = Waiting 0" "ct_loop ctl_sample = Handling ''a''"
    by (simp_all add: ctl_sample_def)
  from stopped_step_needs_cancel [OF ctl_sample_reach this(2,1) r_into_rtranclp [of ctl_step, OF st]] st
  show ?thesis by auto
qed

text \<open>
  A step that is cancelled before its event is received leaves its entry in the pause
  map for good: no later step of the system removes it.
\<close>

theorem cancelled_send_keeps_pause_entry:
  assumes "ctl_reach s" "ct_phase s i = Sending ch"
    and "ctl_step\<^sup>*\<^sup>* (s\<lparr>ct_phase := (ct_phase s)(i := Finished (Some ErrCanceled))\<rparr>) t"
  shows "map_of (pz_pause (ct_pauses t)) i = Some ch"
proof -
  have inv: "ctl_inv s"
    using assms(1) by (rule ctl.reach_inv)
  then have "chan_of s i = Some ch" "ct_loop s \<noteq> Handling i"
    using assms(2) unfolding ctl_inv_def by blast+
  then have "abandoned i ch (s\<lparr>ct_phase := (ct_phase s)(i := Finished (Some ErrCanceled))\<rparr>)"
    using assms(2) ctl_inv_finish [OF inv] by (simp add: abandoned_def)
  then show ?thesis
    using abandoned_steps [OF assms(3)] by (simp add: abandoned_def chan_of_def)
qed

theorem cancelled_send_keeps_pause_entry_witness:
  "map_of (pz_pause (ct_pauses (ctl_sending\<lparr>ct_phase := (ct_phase ctl_sending)(''a'' := Finished (Some ErrCanceled))\<rparr>)))
     ''a'' = Some 0"
proof -
  have "ct_phase ctl_sending ''a'' = Sending 0"
    by (simp add: ctl_sending_def)
  from cancelled_send_keeps_pause_entry [OF ctl_sending_reach this rtranclp.rtrancl_refl]
  show ?thesis .
qed

end
