(* ===== verification/PauseSpec.thy ===== *)
theory PauseSpec
  imports Pausing
begin

text \<open>
  What the pause protocol of \<open>controller.go\<close> promises, without its channels and its map:
  every step of the build is paused before it may go on, the debugger looks at one paused
  step at a time, and a step goes on only when the debugger has released it. The protocol of
  \<open>Pausing\<close> refines this specification.
\<close>

section \<open>The specification\<close>

datatype step_status = NotYet | Paused_at_debugger | Free_to_go | Gone_on | Cancelled_step

record pause_spec =
  ps_status :: "string \<Rightarrow> step_status"
  ps_current :: "string option"

definition spec_start :: pause_spec where
  "spec_start = \<lparr>ps_status = (\<lambda>_. NotYet), ps_current = None\<rparr>"

inductive spec_step :: "pause_spec \<Rightarrow> pause_spec \<Rightarrow> bool" where
  pauses: "ps_status a i = NotYet \<Longrightarrow> spec_step a (a\<lparr>ps_status := (ps_status a)(i := Paused_at_debugger)\<rparr>)"
| picked: "ps_current a = None \<Longrightarrow> ps_status a i = Paused_at_debugger \<Longrightarrow> spec_step a (a\<lparr>ps_current := Some i\<rparr>)"
| released: "ps_current a = Some i \<Longrightarrow> ps_status a i = Paused_at_debugger \<Longrightarrow>
    spec_step a \<lparr>ps_status = (ps_status a)(i := Free_to_go), ps_current = None\<rparr>"
| dropped: "ps_current a = Some i \<Longrightarrow> spec_step a (a\<lparr>ps_current := None\<rparr>)"
| goes_on: "ps_status a i = Free_to_go \<Longrightarrow> spec_step a (a\<lparr>ps_status := (ps_status a)(i := Gone_on)\<rparr>)"
| cancelled: "ps_status a i = Paused_at_debugger \<or> ps_status a i = Free_to_go \<Longrightarrow>
    spec_step a (a\<lparr>ps_status := (ps_status a)(i := Cancelled_step)\<rparr>)"

section \<open>The refinement\<close>

definition status_of :: "pauses \<Rightarrow> phase \<Rightarrow> step_status" where
  "status_of p ph =
     (case ph of
        Absent \<Rightarrow> NotYet
      | Sending ch \<Rightarrow> Paused_at_debugger
      | Waiting ch \<Rightarrow> if ch \<in> set (pz_closed p) then Free_to_go else Paused_at_debugger
      | Finished None \<Rightarrow> Gone_on
      | Finished (Some e) \<Rightarrow> Cancelled_step)"

definition pause_abs :: "ctl \<Rightarrow> pause_spec" where
  "pause_abs s =
     \<lparr>ps_status = (\<lambda>i. status_of (ct_pauses s) (ct_phase s i)),
      ps_current = (case ct_loop s of Handling i \<Rightarrow> Some i | _ \<Rightarrow> None)\<rparr>"

lemma status_of_simps [simp]:
  "status_of p Absent = NotYet" "status_of p (Sending ch) = Paused_at_debugger"
  "status_of p (Waiting ch) = (if ch \<in> set (pz_closed p) then Free_to_go else Paused_at_debugger)"
  "status_of p (Finished None) = Gone_on" "status_of p (Finished (Some e)) = Cancelled_step"
  by (simp_all add: status_of_def)

lemma status_of_cong: "pz_closed p = pz_closed q \<Longrightarrow> status_of p = status_of q"
  by (auto simp: status_of_def fun_eq_iff split: phase.split option.split)

lemma pause_abs_phase:
  "pause_abs (s\<lparr>ct_phase := (ct_phase s)(i := ph)\<rparr>) =
     (pause_abs s)\<lparr>ps_status := (ps_status (pause_abs s))(i := status_of (ct_pauses s) ph)\<rparr>"
  by (simp add: pause_abs_def fun_eq_iff)

lemma pause_abs_loop:
  "pause_abs (s\<lparr>ct_loop := l\<rparr>) = (pause_abs s)\<lparr>ps_current := (case l of Handling i \<Rightarrow> Some i | _ \<Rightarrow> None)\<rparr>"
  by (simp add: pause_abs_def)

lemma proceed_refines:
  assumes inv: "ctl_inv s" and loop: "ct_loop s = Handling i" and c: "continueID (ct_pauses s) i = Ok p"
  shows "spec_step (pause_abs s) (pause_abs (s\<lparr>ct_pauses := p, ct_loop := Listening, ct_released := i # ct_released s\<rparr>))"
    (is "spec_step _ (pause_abs ?t)")
proof -
  have cur: "ps_current (pause_abs s) = Some i"
    by (simp add: pause_abs_def loop)
  obtain ch where ch: "chan_of s i = Some ch"
    using inv loop unfolding ctl_inv_def by blast
  have closed: "pz_closed p = ch # pz_closed (ct_pauses s)"
    using continueID_known [OF ch c] by simp
  have own: "j = i" if "ct_phase s j = Waiting ch" for j
    using inv that ch unfolding ctl_inv_def by blast
  have other: "status_of p (ct_phase s j) = status_of (ct_pauses s) (ct_phase s j)" if "j \<noteq> i" for j
    using own [of j] that closed by (auto simp: status_of_def split: phase.split option.split)
  show ?thesis
  proof (cases "ct_phase s i")
    case (Waiting ch')
    have "chan_of s i = Some ch'" "ch' \<notin> set (pz_closed (ct_pauses s))"
      using inv loop Waiting unfolding ctl_inv_def by blast+
    then have same: "ch' = ch" "ps_status (pause_abs s) i = Paused_at_debugger"
      using ch Waiting by (simp_all add: pause_abs_def)
    have "pause_abs ?t = \<lparr>ps_status = (ps_status (pause_abs s))(i := Free_to_go), ps_current = None\<rparr>"
      using other Waiting same(1) closed by (auto simp: pause_abs_def fun_eq_iff)
    then show ?thesis
      using spec_step.released [OF cur same(2)] by simp
  next
    case (Finished r)
    then have "status_of p (ct_phase s i) = status_of (ct_pauses s) (ct_phase s i)"
      by (cases r) simp_all
    with other have "(\<lambda>j. status_of p (ct_phase s j)) = (\<lambda>j. status_of (ct_pauses s) (ct_phase s j))"
      by (metis (no_types))
    then have "pause_abs ?t = (pause_abs s)\<lparr>ps_current := None\<rparr>"
      by (simp add: pause_abs_def)
    then show ?thesis
      using spec_step.dropped [OF cur] by simp
  qed (use inv loop in \<open>auto simp: ctl_inv_def\<close>)
qed

lemma ctl_refines_step:
  assumes "ctl_inv s" "ctl_step s t"
  shows "pause_abs t = pause_abs s \<or> spec_step (pause_abs s) (pause_abs t)"
  using assms(2)
proof cases
  case (notify i p ch)
  have "status_of p = status_of (ct_pauses s)"
    using wait_simps [OF notify(3)] by (intro status_of_cong) simp
  then have "pause_abs t = (pause_abs s)\<lparr>ps_status := (ps_status (pause_abs s))(i := Paused_at_debugger)\<rparr>"
    using notify(1) by (simp add: pause_abs_def fun_eq_iff)
  moreover have "ps_status (pause_abs s) i = NotYet"
    using notify(2) by (simp add: pause_abs_def)
  ultimately show ?thesis
    using spec_step.pauses by simp
next
  case (deliver i ch)
  have "ch \<notin> set (pz_closed (ct_pauses s))"
    using assms(1) deliver(2) unfolding ctl_inv_def by blast
  then have "pause_abs t = (pause_abs s)\<lparr>ps_current := Some i\<rparr>"
    using deliver(1,2) by (auto simp: pause_abs_def fun_eq_iff)
  moreover have "ps_current (pause_abs s) = None" "ps_status (pause_abs s) i = Paused_at_debugger"
    using deliver(2,3) by (simp_all add: pause_abs_def)
  ultimately show ?thesis
    using spec_step.picked by simp
next
  case (proceed i p)
  then show ?thesis
    using proceed_refines [OF assms(1)] by simp
next
  case (stop i e)
  then show ?thesis
    using spec_step.dropped [of "pause_abs s" i] by (simp add: pause_abs_loop) (simp add: pause_abs_def)
next
  case (resume i ch)
  then show ?thesis
    using spec_step.goes_on [of "pause_abs s" i]
    by (simp add: pause_abs_phase) (simp add: pause_abs_def)
next
  case (reenter e)
  then show ?thesis
    by (simp add: pause_abs_def)
next
  case (cancel_send i ch)
  then show ?thesis
    using spec_step.cancelled [of "pause_abs s" i] by (simp add: pause_abs_phase) (simp add: pause_abs_def)
next
  case (cancel_wait i ch)
  then show ?thesis
    using spec_step.cancelled [of "pause_abs s" i] by (simp add: pause_abs_phase) (simp add: pause_abs_def)
qed

interpretation pausing: refines "\<lambda>s. s = ctl_start" ctl_step ctl_inv "\<lambda>a. a = spec_start" spec_step pause_abs
proof
  show "s = ctl_start \<Longrightarrow> pause_abs s = spec_start" for s
    by (simp add: pause_abs_def spec_start_def ctl_start_def)
qed (rule ctl_refines_step)

section \<open>Properties\<close>

text \<open>
  C7. The pause protocol implements its specification: whatever the build steps and the loop
  do, the state of the channels and the map reads as a state of the specification, in
  which a step goes on only after it was paused, looked at by the debugger and released.
\<close>

theorem pausing_refines_spec:
  assumes "reach (\<lambda>s. s = ctl_start) ctl_step s"
  shows "reach (\<lambda>a. a = spec_start) spec_step (pause_abs s)"
  using assms by (rule pausing.reach_abs)

theorem pausing_refines_spec_witness:
  "reach (\<lambda>a. a = spec_start) spec_step (pause_abs ctl_sample) \<and>
   ps_status (pause_abs ctl_sample) ''a'' = Paused_at_debugger"
proof
  show "reach (\<lambda>a. a = spec_start) spec_step (pause_abs ctl_sample)"
    using ctl_sample_reach by (rule pausing_refines_spec)
qed (simp add: pause_abs_def ctl_sample_def)

end
