(* ===== verification/SharedReader.thy ===== *)
theory SharedReader
  imports Prelude "HOL-Library.Sublist"
begin

text \<open>
  The shared reader of the standard input (\<open>sharedReader\<close> in \<open>commands.go\<close>): one goroutine
  reads chunks and writes each to the pipe of the current user, or throws it away. Users
  take turns: \<open>use\<close> makes a pipe, the function it returns ends the use.
\<close>

section \<open>The reader\<close>

text \<open>
  Pipes are numbered in the order they are made. \<open>sr_mu\<close>: the use that holds \<open>useMu\<close>;
  \<open>sr_current\<close>: \<open>currentW\<close>; \<open>sr_closed\<close>: the pipes closed on either end; \<open>sr_stop\<close>: the
  channel \<open>done\<close> is closed. The goroutine is at a read, holds a chunk, writes the rest of a
  chunk to the destination it chose, or has returned. \<open>sr_input\<close> and \<open>sr_log\<close> are history
  variables: the bytes read so far, and what became of each.
\<close>

datatype fate = Delivered nat | Lost

datatype reader_phase = AtRead | Holding string | Writing "nat option" string | Exited

record reader =
  sr_mu :: "nat option"
  sr_current :: "nat option"
  sr_next :: nat
  sr_closed :: "nat list"
  sr_stop :: bool
  sr_phase :: reader_phase
  sr_panicked :: bool
  sr_input :: string
  sr_log :: "(char \<times> fate) list"

definition newSharedReader :: reader where
  "newSharedReader = \<lparr>sr_mu = None, sr_current = None, sr_next = 0, sr_closed = [], sr_stop = False,
     sr_phase = AtRead, sr_panicked = False, sr_input = [], sr_log = []\<rparr>"

text \<open>\<open>use\<close>, once it has \<open>useMu\<close>, and the function that ends the use.\<close>

definition use :: "reader \<Rightarrow> reader go_result" where
  "use s =
     (if sr_current s \<noteq> None then Panic ''non nil writer''
      else Ok (s\<lparr>sr_mu := Some (sr_next s), sr_current := Some (sr_next s), sr_next := Suc (sr_next s)\<rparr>))"

definition end_use :: "nat \<Rightarrow> reader \<Rightarrow> reader" where
  "end_use p s =
     (if sr_current s \<noteq> None then s\<lparr>sr_current := None, sr_closed := p # sr_closed s\<rparr> else s)\<lparr>sr_mu := None\<rparr>"

text \<open>The end of the input closes the pipe of the current user; the goroutine reads again.\<close>

definition at_eof :: "reader \<Rightarrow> reader" where
  "at_eof s =
     (case sr_current s of
        None \<Rightarrow> s
      | Some w \<Rightarrow> s\<lparr>sr_current := None, sr_closed := w # sr_closed s\<rparr>)"

definition lose :: "string \<Rightarrow> (char \<times> fate) list" where
  "lose bs = map (\<lambda>b. (b, Lost)) bs"

text \<open>
  A write to a pipe goes on as the user reads, byte by byte here, and fails when the pipe
  is closed; the error is only logged.
\<close>

inductive reader_step :: "reader \<Rightarrow> reader \<Rightarrow> bool" where
  use_ok: "sr_mu s = None \<Longrightarrow> use s = Ok t \<Longrightarrow> reader_step s t"
| use_panic: "sr_mu s = None \<Longrightarrow> use s = Panic m \<Longrightarrow> reader_step s (s\<lparr>sr_panicked := True\<rparr>)"
| finish: "sr_mu s = Some p \<Longrightarrow> reader_step s (end_use p s)"
| close: "reader_step s (s\<lparr>sr_stop := True\<rparr>)"
| leave: "sr_phase s = AtRead \<Longrightarrow> sr_stop s \<Longrightarrow> reader_step s (s\<lparr>sr_phase := Exited\<rparr>)"
| read_error: "sr_phase s = AtRead \<Longrightarrow> reader_step s (s\<lparr>sr_phase := Exited\<rparr>)"
| read_eof: "sr_phase s = AtRead \<Longrightarrow> reader_step s (at_eof s)"
| read_chunk: "sr_phase s = AtRead \<Longrightarrow> length bs \<le> 4096 \<Longrightarrow>
    reader_step s (s\<lparr>sr_phase := Holding bs, sr_input := sr_input s @ bs\<rparr>)"
| choose: "sr_phase s = Holding bs \<Longrightarrow> reader_step s (s\<lparr>sr_phase := Writing (sr_current s) bs\<rparr>)"
| transfer: "sr_phase s = Writing (Some p) (b # bs) \<Longrightarrow> \<not> List.member (sr_closed s) p \<Longrightarrow>
    reader_step s (s\<lparr>sr_phase := Writing (Some p) bs, sr_log := sr_log s @ [(b, Delivered p)]\<rparr>)"
| written: "sr_phase s = Writing (Some p) [] \<Longrightarrow> reader_step s (s\<lparr>sr_phase := AtRead\<rparr>)"
| broken: "sr_phase s = Writing (Some p) bs \<Longrightarrow> List.member (sr_closed s) p \<Longrightarrow>
    reader_step s (s\<lparr>sr_phase := AtRead, sr_log := sr_log s @ lose bs\<rparr>)"
| discard: "sr_phase s = Writing None bs \<Longrightarrow>
    reader_step s (s\<lparr>sr_phase := AtRead, sr_log := sr_log s @ lose bs\<rparr>)"

inductive_cases reader_stepE: "reader_step s t"

abbreviation reader_reach :: "reader \<Rightarrow> bool" where
  "reader_reach \<equiv> reach (\<lambda>s. s = newSharedReader) reader_step"

section \<open>Invariant\<close>

text \<open>The bytes still in the hands of the goroutine, and those each user was given.\<close>

primrec in_hand :: "reader_phase \<Rightarrow> string" where
  "in_hand AtRead = []"
| "in_hand (Holding bs) = bs"
| "in_hand (Writing d bs) = bs"
| "in_hand Exited = []"

definition receivers :: "(char \<times> fate) list \<Rightarrow> nat list" where
  "receivers log = List.map_filter (\<lambda>(b, f). case f of Delivered p \<Rightarrow> Some p | Lost \<Rightarrow> None) log"

definition received :: "nat \<Rightarrow> reader \<Rightarrow> string" where
  "received p s = map fst (filter (\<lambda>(b, f). f = Delivered p) (sr_log s))"

definition reader_inv :: "reader \<Rightarrow> bool" where
  "reader_inv s \<longleftrightarrow>
     \<not> sr_panicked s \<and>
     (sr_mu s = None \<longrightarrow> sr_current s = None) \<and>
     (\<forall>p. sr_current s = Some p \<longrightarrow> sr_mu s = Some p) \<and>
     (\<forall>p. sr_mu s = Some p \<longrightarrow> sr_next s = Suc p) \<and>
     (\<forall>p < sr_next s. p \<in> set (sr_closed s) \<or> sr_current s = Some p) \<and>
     (\<forall>d bs. sr_phase s = Writing (Some d) bs \<longrightarrow> d < sr_next s \<and> (\<forall>q \<in> set (receivers (sr_log s)). q \<le> d)) \<and>
     (\<forall>q \<in> set (receivers (sr_log s)). q < sr_next s) \<and>
     sorted (receivers (sr_log s)) \<and>
     sr_input s = map fst (sr_log s) @ in_hand (sr_phase s)"

lemma receivers_simps [simp]:
  "receivers [] = []" "receivers (l @ l') = receivers l @ receivers l'"
  "receivers (lose bs) = []" "receivers [(b, Delivered p)] = [p]"
  by (auto simp: receivers_def lose_def map_filter_def)

lemma map_fst_lose [simp]: "map fst (lose bs) = bs"
  by (simp add: lose_def comp_def)

lemma reader_inv_start: "reader_inv newSharedReader"
  by (simp add: reader_inv_def newSharedReader_def)

lemma use_inv: "reader_inv s \<Longrightarrow> sr_mu s = None \<Longrightarrow> use s = Ok t \<Longrightarrow> reader_inv t"
  by (auto simp: reader_inv_def use_def less_Suc_eq split: if_splits)

lemma use_no_panic: "reader_inv s \<Longrightarrow> sr_mu s = None \<Longrightarrow> use s \<noteq> Panic m"
  by (simp add: reader_inv_def use_def)

lemma end_use_inv: "reader_inv s \<Longrightarrow> sr_mu s = Some p \<Longrightarrow> reader_inv (end_use p s)"
  by (auto simp: reader_inv_def end_use_def)

lemma at_eof_inv: "reader_inv s \<Longrightarrow> reader_inv (at_eof s)"
  by (auto simp: reader_inv_def at_eof_def split: option.split)

lemma transfer_inv:
  assumes "reader_inv s" "sr_phase s = Writing (Some p) (b # bs)"
  shows "reader_inv (s\<lparr>sr_phase := Writing (Some p) bs, sr_log := sr_log s @ [(b, Delivered p)]\<rparr>)"
  using assms by (auto simp: reader_inv_def sorted_append)

lemma lose_inv:
  assumes "reader_inv s" "sr_phase s = Writing d bs"
  shows "reader_inv (s\<lparr>sr_phase := AtRead, sr_log := sr_log s @ lose bs\<rparr>)"
  using assms by (auto simp: reader_inv_def)

text \<open>The destination is chosen anew for each chunk, so it is never before an earlier one.\<close>

lemma choose_inv:
  assumes "reader_inv s" "sr_phase s = Holding bs"
  shows "reader_inv (s\<lparr>sr_phase := Writing (sr_current s) bs\<rparr>)"
  using assms by (auto simp: reader_inv_def less_Suc_eq_le)

lemma reader_step_inv: "reader_step s t \<Longrightarrow> reader_inv s \<Longrightarrow> reader_inv t"
proof (induction rule: reader_step.induct)
  case (use_panic s m)
  then show ?case
    using use_no_panic by blast
qed (simp_all add: use_inv end_use_inv at_eof_inv transfer_inv lose_inv choose_inv, simp_all add: reader_inv_def)

interpretation readers: inv_system "\<lambda>s. s = newSharedReader" reader_step reader_inv
  by unfold_locales (simp add: reader_inv_start, rule reader_step_inv)

lemma closed_grows: "reader_step s t \<Longrightarrow> p \<in> set (sr_closed s) \<Longrightarrow> p \<in> set (sr_closed t)"
  by (erule reader_stepE) (auto simp: use_def end_use_def at_eof_def split: if_splits option.splits)

lemma log_grows: "reader_step s t \<Longrightarrow> prefix (sr_log s) (sr_log t)"
  by (erule reader_stepE) (auto simp: use_def end_use_def at_eof_def split: if_splits option.splits)

text \<open>A write whose destination takes nothing any more.\<close>

definition dead_write :: "reader \<Rightarrow> bool" where
  "dead_write s \<longleftrightarrow>
     (\<exists>d bs. sr_phase s = Writing d bs \<and> (\<forall>p. d = Some p \<longrightarrow> p \<in> set (sr_closed s)))"

lemma dead_write_step:
  "reader_step s t \<Longrightarrow> dead_write s \<Longrightarrow>
   sr_phase t = sr_phase s \<and> dead_write t \<and> sr_log t = sr_log s \<or>
   sr_log t = sr_log s @ lose (in_hand (sr_phase s))"
  by (induction rule: reader_step.induct)
    (auto simp: dead_write_def use_def end_use_def at_eof_def lose_def split: if_splits option.splits)

lemma dead_write_steps:
  "reader_step\<^sup>*\<^sup>* s t \<Longrightarrow> dead_write s \<Longrightarrow>
   sr_phase t = sr_phase s \<and> dead_write t \<and> sr_log t = sr_log s \<or>
   prefix (sr_log s @ lose (in_hand (sr_phase s))) (sr_log t)"
proof (induction rule: rtranclp_induct)
  case (step t u)
  then show ?case
    using dead_write_step [OF step(2)] log_grows [OF step(2)]
    by (auto simp: lose_def intro: prefix_order.trans)
qed simp

lemma received_closed:
  "reader_step s t \<Longrightarrow> p \<in> set (sr_closed s) \<Longrightarrow> received p t = received p s"
  by (erule reader_stepE)
    (auto simp: received_def lose_def comp_def use_def end_use_def at_eof_def split: if_splits option.splits)

section \<open>Properties\<close>

text \<open>
  C40. The panic of \<open>use\<close> on a writer that is still installed never happens; every byte read from
  the standard input is, in the order read, given to the pipe of one user, thrown away, or
  still held by the goroutine; and bytes go to the users in the order of their turns, so
  that no earlier user gets a byte read after one of a later user.
\<close>

theorem input_split_among_users:
  assumes "reader_reach s"
  shows "\<not> sr_panicked s \<and> sr_input s = map fst (sr_log s) @ in_hand (sr_phase s) \<and>
    sorted (receivers (sr_log s))"
  using readers.reach_inv [OF assms] by (simp add: reader_inv_def)

definition reader_typing :: reader where
  "reader_typing = newSharedReader\<lparr>sr_mu := Some 0, sr_current := Some 0, sr_next := 1,
     sr_phase := Writing (Some 0) ''cd'', sr_input := ''abcd'',
     sr_log := [(CHR ''a'', Delivered 0), (CHR ''b'', Delivered 0)]\<rparr>"

lemma reader_typing_reach: "reader_reach reader_typing"
proof -
  let ?s0 = newSharedReader
  let ?s1 = "?s0\<lparr>sr_mu := Some 0, sr_current := Some 0, sr_next := 1\<rparr>"
  let ?s2 = "?s1\<lparr>sr_phase := Holding ''abcd'', sr_input := sr_input ?s1 @ ''abcd''\<rparr>"
  let ?s3 = "?s2\<lparr>sr_phase := Writing (sr_current ?s2) ''abcd''\<rparr>"
  let ?s4 = "?s3\<lparr>sr_phase := Writing (Some 0) ''bcd'', sr_log := sr_log ?s3 @ [(CHR ''a'', Delivered 0)]\<rparr>"
  let ?s5 = "?s4\<lparr>sr_phase := Writing (Some 0) ''cd'', sr_log := sr_log ?s4 @ [(CHR ''b'', Delivered 0)]\<rparr>"
  have "reader_step ?s0 ?s1"
    by (rule use_ok) (simp_all add: newSharedReader_def use_def)
  moreover have "reader_step ?s1 ?s2"
    by (rule read_chunk) (simp_all add: newSharedReader_def)
  moreover have "reader_step ?s2 ?s3"
    by (rule choose) simp
  moreover have "reader_step ?s3 ?s4" "reader_step ?s4 ?s5"
    by (rule transfer; simp add: newSharedReader_def)+
  ultimately have "reader_reach ?s5"
    by (intro reach_step [OF reach_step [OF reach_step [OF reach_step [OF reach_step [OF reach_init]]]]]) simp_all
  then show ?thesis
    by (simp add: reader_typing_def newSharedReader_def)
qed

theorem input_split_among_users_witness:
  "sr_input reader_typing = map fst (sr_log reader_typing) @ in_hand (sr_phase reader_typing)"
  using input_split_among_users [OF reader_typing_reach] by blast

text \<open>
  When a use has ended, its user gets nothing more; and what is left of the chunk that was
  being written to it, as of a chunk that was read while nobody used the input, is lost to
  every user: nothing else happens before these bytes are thrown away.
\<close>

theorem rest_of_chunk_is_lost:
  assumes "reader_step\<^sup>*\<^sup>* s t" "p \<in> set (sr_closed s)"
  shows "received p t = received p s \<and>
    (sr_phase s = Writing (Some p) bs \<or> sr_phase s = Writing None bs \<longrightarrow>
       sr_phase t = sr_phase s \<and> sr_log t = sr_log s \<or> prefix (sr_log s @ map (\<lambda>b. (b, Lost)) bs) (sr_log t))"
proof
  have "p \<in> set (sr_closed t) \<and> received p t = received p s"
    using assms(1,2)
    by (induction rule: rtranclp_induct) (auto simp: closed_grows received_closed)
  then show "received p t = received p s"
    by blast
  show "sr_phase s = Writing (Some p) bs \<or> sr_phase s = Writing None bs \<longrightarrow>
       sr_phase t = sr_phase s \<and> sr_log t = sr_log s \<or> prefix (sr_log s @ map (\<lambda>b. (b, Lost)) bs) (sr_log t)"
    using dead_write_steps [OF assms(1)] assms(2) by (auto simp: dead_write_def lose_def)
qed

theorem rest_of_chunk_is_lost_witness:
  "let s = end_use 0 reader_typing; t = s\<lparr>sr_phase := AtRead, sr_log := sr_log s @ lose ''cd''\<rparr>
   in received 0 t = ''ab'' \<and> prefix (sr_log s @ map (\<lambda>b. (b, Lost)) ''cd'') (sr_log t)"
proof -
  let ?s = "end_use 0 reader_typing"
  let ?t = "?s\<lparr>sr_phase := AtRead, sr_log := sr_log ?s @ lose ''cd''\<rparr>"
  have closed: "0 \<in> set (sr_closed ?s)" and ph: "sr_phase ?s = Writing (Some 0) ''cd''"
    by (simp_all add: end_use_def reader_typing_def newSharedReader_def)
  then have "reader_step ?s ?t"
    by (intro broken) simp_all
  then have "reader_step\<^sup>*\<^sup>* ?s ?t"
    by (rule r_into_rtranclp)
  from rest_of_chunk_is_lost [OF this closed, of "''cd''"] ph show ?thesis
    by (auto simp: Let_def received_def end_use_def reader_typing_def newSharedReader_def)
qed

end
