(* ===== verification/Calls.thy ===== *)
theory Calls
  imports Prelude
begin

text \<open>
  Straight-line Go code that calls the operating system and libraries, checks each error
  and defers clean-ups: programs that pass on the trace of the calls made with their
  answers. The world is a function of the trace so far, so that it can answer equal calls
  differently. Resources are counted over the trace.
\<close>

type_synonym answer = "go_err + string"
type_synonym 'c trace = "('c \<times> answer) list"
type_synonym 'c world = "'c trace \<Rightarrow> 'c \<Rightarrow> answer"
type_synonym ('c, 'a) prog = "'c trace \<Rightarrow> 'a go_result \<times> 'c trace"

definition ret :: "'a \<Rightarrow> ('c, 'a) prog" where
  "ret a tr = (Ok a, tr)"

definition fail :: "go_err \<Rightarrow> ('c, 'a) prog" where
  "fail e tr = (Fail e, tr)"

text \<open>A call whose error goes on to the continuation, and one whose error is returned.\<close>

definition call :: "'c world \<Rightarrow> 'c \<Rightarrow> (answer \<Rightarrow> ('c, 'a) prog) \<Rightarrow> ('c, 'a) prog" where
  "call os c k tr = (case os tr c of r \<Rightarrow> k r (tr @ [(c, r)]))"

definition attempt :: "'c world \<Rightarrow> 'c \<Rightarrow> (string \<Rightarrow> ('c, 'a) prog) \<Rightarrow> ('c, 'a) prog" where
  "attempt os c k = call os c (\<lambda>r. case r of Inl e \<Rightarrow> fail e | Inr s \<Rightarrow> k s)"

definition perform :: "'c world \<Rightarrow> 'c \<Rightarrow> ('c, 'a) prog \<Rightarrow> ('c, 'a) prog" where
  "perform os c k = call os c (\<lambda>_. k)"

text \<open>Code that needs the result of other code, and \<open>defer\<close>: the calls run on every way out.\<close>

definition bind :: "('c, 'a) prog \<Rightarrow> ('a \<Rightarrow> ('c, 'b) prog) \<Rightarrow> ('c, 'b) prog" where
  "bind p k tr =
     (case p tr of
        (Ok a, tr') \<Rightarrow> k a tr'
      | (Fail e, tr') \<Rightarrow> (Fail e, tr')
      | (Panic m, tr') \<Rightarrow> (Panic m, tr'))"

primrec perform_all :: "'c world \<Rightarrow> 'c list \<Rightarrow> 'c trace \<Rightarrow> 'c trace" where
  "perform_all os [] tr = tr"
| "perform_all os (c # cs) tr = perform_all os cs (tr @ [(c, os tr c)])"

definition deferred :: "'c world \<Rightarrow> 'c list \<Rightarrow> ('c, 'a) prog \<Rightarrow> ('c, 'a) prog" where
  "deferred os cs p tr = (case p tr of (r, tr') \<Rightarrow> (r, perform_all os cs tr'))"

text \<open>Deferred calls that run only when the function returns an error.\<close>

definition on_error :: "'c world \<Rightarrow> 'c list \<Rightarrow> ('c, 'a) prog \<Rightarrow> ('c, 'a) prog" where
  "on_error os cs p tr =
     (case p tr of
        (Fail e, tr') \<Rightarrow> (Fail e, perform_all os cs tr')
      | (r, tr') \<Rightarrow> (r, tr'))"

declare ret_def [go_defs] fail_def [go_defs] call_def [go_defs] attempt_def [go_defs] perform_def [go_defs]
  bind_def [go_defs] deferred_def [go_defs] on_error_def [go_defs]

section \<open>Resources\<close>

text \<open>
  \<open>d\<close> says how a call with its answer changes the number of held resources. \<open>shifts d n p\<close>:
  the program ends with the number changed by \<open>n\<close>, whatever the world answers. A program
  with \<open>shifts d 0\<close> gives back all it takes.
\<close>

definition level :: "('c \<times> answer \<Rightarrow> int) \<Rightarrow> 'c trace \<Rightarrow> int" where
  "level d tr = (\<Sum>x \<leftarrow> tr. d x)"

definition shifts :: "('c \<times> answer \<Rightarrow> int) \<Rightarrow> int \<Rightarrow> ('c, 'a) prog \<Rightarrow> bool" where
  "shifts d n p \<longleftrightarrow> (\<forall>tr. level d (snd (p tr)) = level d tr + n)"

lemma level_simps [simp]:
  "level d [] = 0" "level d (x # tr) = d x + level d tr" "level d (tr @ tr') = level d tr + level d tr'"
  by (simp_all add: level_def)

lemma shifts_ret: "n = 0 \<Longrightarrow> shifts d n (ret a)" and shifts_fail: "n = 0 \<Longrightarrow> shifts d n (fail e)"
  by (simp_all add: shifts_def ret_def fail_def)

lemma shifts_call: "(\<And>r. shifts d (n - d (c, r)) (k r)) \<Longrightarrow> shifts d n (call os c k)"
  by (simp add: shifts_def call_def)

lemma shifts_attempt:
  assumes "\<And>e. d (c, Inl e) = n" "\<And>s. shifts d (n - d (c, Inr s)) (k s)"
  shows "shifts d n (attempt os c k)"
  unfolding attempt_def
proof (rule shifts_call)
  fix r
  show "shifts d (n - d (c, r)) (case r of Inl e \<Rightarrow> fail e | Inr s \<Rightarrow> k s)"
    using assms by (cases r) (auto simp: shifts_fail)
qed

lemma shifts_perform: "(\<And>r. d (c, r) = 0) \<Longrightarrow> shifts d n k \<Longrightarrow> shifts d n (perform os c k)"
  unfolding perform_def by (rule shifts_call) simp

lemma shifts_bind: "shifts d 0 p \<Longrightarrow> (\<And>a. shifts d 0 (k a)) \<Longrightarrow> shifts d 0 (bind p k)"
  unfolding shifts_def
proof
  fix tr
  assume "\<forall>tr. level d (snd (p tr)) = level d tr + 0" "\<And>a. \<forall>tr. level d (snd (k a tr)) = level d tr + 0"
  then show "level d (snd (bind p k tr)) = level d tr + 0"
    by (cases "p tr"; cases "fst (p tr)") (auto simp: bind_def dest!: spec [of _ tr])
qed

lemma level_perform_all:
  "(\<And>c r. c \<in> set cs \<Longrightarrow> d (c, r) = f c) \<Longrightarrow> level d (perform_all os cs tr) = level d tr + (\<Sum>c \<leftarrow> cs. f c)"
  by (induction cs arbitrary: tr) simp_all

lemma shifts_deferred:
  assumes "shifts d (n - (\<Sum>c \<leftarrow> cs. f c)) p" "\<And>c r. c \<in> set cs \<Longrightarrow> d (c, r) = f c"
  shows "shifts d n (deferred os cs p)"
proof -
  have "level d (perform_all os cs tr) = level d tr + (\<Sum>c \<leftarrow> cs. f c)" for tr
    using assms(2) by (rule level_perform_all)
  with assms(1) show ?thesis
    by (simp add: shifts_def deferred_def case_prod_unfold)
qed

lemmas shifts_rules = shifts_ret shifts_fail shifts_attempt shifts_perform shifts_bind shifts_deferred

section \<open>Checks on a trace\<close>

text \<open>Every call is made where \<open>Q\<close> allows it, given the trace before it.\<close>

primrec checked :: "('c trace \<Rightarrow> 'c \<times> answer \<Rightarrow> bool) \<Rightarrow> 'c trace \<Rightarrow> 'c trace \<Rightarrow> bool" where
  "checked Q pre [] = True"
| "checked Q pre (x # xs) = (Q pre x \<and> checked Q (pre @ [x]) xs)"

lemma checked_append: "checked Q pre (xs @ ys) \<longleftrightarrow> checked Q pre xs \<and> checked Q (pre @ xs) ys"
  by (induction xs arbitrary: pre) auto

end
