(* ===== verification/Paths.thy ===== *)
theory Paths
  imports Prelude
begin

text \<open>
  The functions of \<open>path/filepath\<close> and \<open>strings\<close> the program uses, on Unix: \<open>Clean\<close>,
  \<open>Join\<close>, \<open>Split\<close>, \<open>Base\<close>, \<open>Dir\<close>, \<open>Contains\<close> and \<open>SplitN(s, sep, 2)\<close> for a separator of
  one byte.
\<close>

abbreviation slash :: char where "slash \<equiv> CHR ''/''"

section \<open>Elements of a path\<close>

fun split_at_char :: "char \<Rightarrow> string \<Rightarrow> string list" where
  "split_at_char c [] = [[]]"
| "split_at_char c (x # xs) =
     (if x = c then [] # split_at_char c xs
      else (case split_at_char c xs of [] \<Rightarrow> [[x]] | y # ys \<Rightarrow> (x # y) # ys))"

fun join_with :: "string \<Rightarrow> string list \<Rightarrow> string" where
  "join_with sep [] = []"
| "join_with sep [s] = s"
| "join_with sep (s # t # ss) = s @ sep @ join_with sep (t # ss)"

text \<open>
  The lexical processing of \<open>Clean\<close>: the stack of the elements kept so far, the last one
  first.
\<close>

definition clean_elem :: "bool \<Rightarrow> string list \<Rightarrow> string \<Rightarrow> string list" where
  "clean_elem rooted st e =
     (if e = [] \<or> e = ''.'' then st
      else if e = ''..'' then
        (case st of
           [] \<Rightarrow> if rooted then [] else [''..'']
         | x # xs \<Rightarrow> if x = ''..'' then ''..'' # st else xs)
      else e # st)"

definition clean_elems :: "bool \<Rightarrow> string list \<Rightarrow> string list" where
  "clean_elems rooted es = rev (foldl (clean_elem rooted) [] es)"

definition path_string :: "bool \<Rightarrow> string list \<Rightarrow> string" where
  "path_string rooted es =
     (if rooted then slash # join_with [slash] es
      else if es = [] then ''.'' else join_with [slash] es)"

definition is_rooted :: "string \<Rightarrow> bool" where
  "is_rooted p \<longleftrightarrow> p \<noteq> [] \<and> hd p = slash"

definition Clean :: "string \<Rightarrow> string" where
  "Clean p =
     (if p = [] then ''.''
      else path_string (is_rooted p) (clean_elems (is_rooted p) (split_at_char slash p)))"

definition Join :: "string \<Rightarrow> string \<Rightarrow> string" where
  "Join a b =
     (if a \<noteq> [] then Clean (a @ slash # b) else if b \<noteq> [] then Clean b else [])"

text \<open>\<open>filepath.Split\<close>: the directory with its final slash, and the file.\<close>

definition Split :: "string \<Rightarrow> string \<times> string" where
  "Split p = (rev (dropWhile (\<lambda>c. c \<noteq> slash) (rev p)), rev (takeWhile (\<lambda>c. c \<noteq> slash) (rev p)))"

definition Dir :: "string \<Rightarrow> string" where
  "Dir p = Clean (fst (Split p))"

definition Base :: "string \<Rightarrow> string" where
  "Base p =
     (if p = [] then ''.''
      else (let q = rev (dropWhile (\<lambda>c. c = slash) (rev p))
            in if q = [] then [slash] else snd (Split q)))"

section \<open>Strings\<close>

fun starts_with :: "string \<Rightarrow> string \<Rightarrow> bool" where
  "starts_with [] s = True"
| "starts_with (c # cs) [] = False"
| "starts_with (c # cs) (d # ds) = (c = d \<and> starts_with cs ds)"

fun contains :: "string \<Rightarrow> string \<Rightarrow> bool" where
  "contains sub [] = (sub = [])"
| "contains sub (c # cs) = (starts_with sub (c # cs) \<or> contains sub cs)"

text \<open>\<open>strings.SplitN(s, string(c), 2)\<close>: one or two parts.\<close>

definition splitN2 :: "char \<Rightarrow> string \<Rightarrow> string list" where
  "splitN2 c s =
     (if c \<in> set s then [takeWhile (\<lambda>x. x \<noteq> c) s, tl (dropWhile (\<lambda>x. x \<noteq> c) s)] else [s])"

section \<open>Lemmas\<close>

lemma starts_with_iff: "starts_with sub s \<longleftrightarrow> (\<exists>t. s = sub @ t)"
  by (induction sub s rule: starts_with.induct) auto

lemma contains_iff: "contains sub s \<longleftrightarrow> (\<exists>a b. s = a @ sub @ b)"
proof (induction s)
  case (Cons c cs)
  have "(\<exists>a b. c # cs = a @ sub @ b) \<longleftrightarrow> (\<exists>b. c # cs = sub @ b) \<or> (\<exists>a b. cs = a @ sub @ b)"
    by (metis append_Cons append_Nil append_eq_Cons_conv)
  with Cons show ?case
    by (simp add: starts_with_iff)
qed simp

lemma Split_append: "fst (Split p) @ snd (Split p) = p"
  by (metis Split_def fst_conv snd_conv rev_append rev_rev_ident takeWhile_dropWhile_id)

lemma Split_file: "slash \<notin> set (snd (Split p))"
  by (auto simp: Split_def dest: set_takeWhileD)

lemma Split_dir: "fst (Split p) = [] \<or> last (fst (Split p)) = slash"
  using hd_dropWhile [of "\<lambda>c. c \<noteq> slash" "rev p"] by (auto simp: Split_def last_rev)

lemma split_at_char_append:
  "split_at_char c (a @ c # b) = split_at_char c a @ split_at_char c b"
proof (induction a)
  case (Cons x a)
  have "split_at_char c a \<noteq> []"
    by (cases a) (auto split: list.splits)
  with Cons show ?case
    by (auto split: list.splits)
qed simp

lemma clean_elem_plain: "e \<noteq> ''..'' \<Longrightarrow> clean_elem r st e = (if e = [] \<or> e = ''.'' then st else e # st)"
  by (simp add: clean_elem_def)

lemma clean_elems_plain:
  "''..'' \<notin> set es \<Longrightarrow>
   foldl (clean_elem r) st es = rev (filter (\<lambda>e. e \<noteq> [] \<and> e \<noteq> ''.'') es) @ st"
  by (induction es arbitrary: st) (auto simp: clean_elem_plain)

text \<open>A path without \<open>..\<close> that is joined to a root stays below the cleaned root.\<close>

lemma Join_below:
  assumes "is_rooted a" "''..'' \<notin> set (split_at_char slash b)"
  shows "Join a b = path_string True
    (clean_elems True (split_at_char slash a) @
     filter (\<lambda>e. e \<noteq> [] \<and> e \<noteq> ''.'') (split_at_char slash b))"
proof -
  have "a \<noteq> []" "is_rooted (a @ slash # b)"
    using assms(1) by (auto simp: is_rooted_def)
  then show ?thesis
    using assms(2)
    by (simp add: Join_def Clean_def split_at_char_append clean_elems_def clean_elems_plain)
qed

lemma splitN2_nonempty: "splitN2 c s \<noteq> []"
  by (simp add: splitN2_def)

lemma splitN2_two: "splitN2 c s = [k, v] \<longleftrightarrow> s = k @ c # v \<and> c \<notin> set k"
proof
  assume eq: "splitN2 c s = [k, v]"
  then have "c \<in> set s" and k: "k = takeWhile (\<lambda>x. x \<noteq> c) s" and v: "v = tl (dropWhile (\<lambda>x. x \<noteq> c) s)"
    by (auto simp: splitN2_def split: if_splits)
  then have "dropWhile (\<lambda>x. x \<noteq> c) s \<noteq> []" "hd (dropWhile (\<lambda>x. x \<noteq> c) s) = c"
    using hd_dropWhile [of "\<lambda>x. x \<noteq> c" s] by auto
  then have "dropWhile (\<lambda>x. x \<noteq> c) s = c # v"
    unfolding v by (metis list.collapse)
  then show "s = k @ c # v \<and> c \<notin> set k"
    unfolding k by (metis (mono_tags, lifting) set_takeWhileD takeWhile_dropWhile_id)
next
  assume s: "s = k @ c # v \<and> c \<notin> set k"
  then have "takeWhile (\<lambda>x. x \<noteq> c) s = k" "dropWhile (\<lambda>x. x \<noteq> c) s = c # v"
    by (simp_all add: split_first)
  with s show "splitN2 c s = [k, v]"
    by (simp add: splitN2_def)
qed

lemma splitN2_one: "splitN2 c s = [k] \<longleftrightarrow> s = k \<and> c \<notin> set s"
  by (auto simp: splitN2_def)

end
