(* ===== verification/Cli.thy ===== *)
theory Cli
  imports Paths
begin

text \<open>
  The command line library \<open>urfave/cli\<close> as the program uses it, for the commands of the shell
  and of \<open>buildg\<close> itself: tables of commands with their flags, what running the library on
  words comes to, and the documented behaviour that properties rely on.
\<close>

section \<open>Tables and outcomes\<close>

text \<open>A command of the table: its flags are declared by their names and default values, a
  duration in nanoseconds.\<close>

datatype flag_value = BoolV bool | IntV int | DurationV int | StringV string | StringsV "string list"

record command_spec =
  cs_name :: string
  cs_aliases :: "string list"
  cs_flags :: "(string \<times> flag_value) list"

text \<open>A parsed command: its arguments and the values of its flags by name.\<close>

record parsed =
  pa_args :: "string list"
  pa_bool :: "string \<Rightarrow> bool"
  pa_int :: "string \<Rightarrow> int"
  pa_string :: "string \<Rightarrow> string"
  pa_strings :: "string \<Rightarrow> string list"

text \<open>
  What \<open>App.Run\<close> does with the words: it calls the action of a command, calls none (after
  printing a help text), or returns an error of its own.
\<close>

datatype cli_outcome = Invoke string parsed | NoAction | CliError go_err

section \<open>The behaviour relied on\<close>

text \<open>
  What is used of \<open>urfave/cli\<close>: in a table whose names and aliases are distinct, words that
  begin with a name or an alias of a command and have no flags after it run that command on
  the rest of the words, and every flag of the command reads as its default. A flag is read
  by the first of its names. \<open>simple_run\<close> is a library that does so.
\<close>

definition command_names :: "command_spec \<Rightarrow> string list" where
  "command_names c = cs_name c # cs_aliases c"

definition flag_key :: "string \<Rightarrow> string" where
  "flag_key names = takeWhile (\<lambda>c. c \<noteq> CHR '','') names"

definition reads_default :: "parsed \<Rightarrow> string \<times> flag_value \<Rightarrow> bool" where
  "reads_default p f =
     (case snd f of
        BoolV b \<Rightarrow> pa_bool p (flag_key (fst f)) = b
      | IntV i \<Rightarrow> pa_int p (flag_key (fst f)) = i
      | DurationV d \<Rightarrow> pa_int p (flag_key (fst f)) = d
      | StringV s \<Rightarrow> pa_string p (flag_key (fst f)) = s
      | StringsV ss \<Rightarrow> pa_strings p (flag_key (fst f)) = ss)"

definition cli_ok :: "(command_spec list \<Rightarrow> string list \<Rightarrow> cli_outcome) \<Rightarrow> bool" where
  "cli_ok run \<longleftrightarrow>
     (\<forall>table c n args. distinct (concat (map command_names table)) \<longrightarrow> c \<in> set table \<longrightarrow>
        n \<in> set (command_names c) \<longrightarrow> distinct (map (\<lambda>f. flag_key (fst f)) (cs_flags c)) \<longrightarrow>
        (\<forall>a \<in> set args. take 1 a \<noteq> ''-'') \<longrightarrow>
        (\<exists>p. run table (n # args) = Invoke (cs_name c) p \<and> pa_args p = args \<and>
             list_all (reads_default p) (cs_flags c)))"

definition simple_run :: "command_spec list \<Rightarrow> string list \<Rightarrow> cli_outcome" where
  "simple_run table ws =
     (case ws of
        [] \<Rightarrow> NoAction
      | n # args \<Rightarrow>
          (case find (\<lambda>c. n \<in> set (command_names c)) table of
             None \<Rightarrow> CliError (Errorf ''No help topic for %q'' [n])
           | Some c \<Rightarrow>
               (let value = map_of (map (\<lambda>f. (flag_key (fst f), snd f)) (cs_flags c))
                in Invoke (cs_name c)
                     \<lparr>pa_args = args,
                      pa_bool = (\<lambda>f. case value f of Some (BoolV b) \<Rightarrow> b | _ \<Rightarrow> False),
                      pa_int = (\<lambda>f. case value f of Some (IntV i) \<Rightarrow> i | Some (DurationV d) \<Rightarrow> d | _ \<Rightarrow> 0),
                      pa_string = (\<lambda>f. case value f of Some (StringV s) \<Rightarrow> s | _ \<Rightarrow> []),
                      pa_strings = (\<lambda>f. case value f of Some (StringsV ss) \<Rightarrow> ss | _ \<Rightarrow> [])\<rparr>)))"

lemma find_by_name:
  "distinct (concat (map command_names table)) \<Longrightarrow> c \<in> set table \<Longrightarrow> n \<in> set (command_names c) \<Longrightarrow>
   find (\<lambda>c. n \<in> set (command_names c)) table = Some c"
proof (induction table)
  case (Cons d table)
  show ?case
  proof (cases "n \<in> set (command_names d)")
    case True
    with Cons.prems have "c \<notin> set table"
      by auto
    with True Cons.prems show ?thesis
      by auto
  qed (use Cons in auto)
qed simp

lemma simple_run_ok: "cli_ok simple_run"
proof -
  have "map_of (map (\<lambda>f. (flag_key (fst f), snd f)) fs) (flag_key (fst f)) = Some (snd f)"
    if "distinct (map (\<lambda>f. flag_key (fst f)) fs)" "f \<in> set fs" for fs :: "(string \<times> flag_value) list" and f
    using that by (intro map_of_is_SomeI) (auto simp: comp_def)
  then show ?thesis
    by (auto simp: cli_ok_def simple_run_def find_by_name Let_def list_all_iff reads_default_def
        split: flag_value.split)
qed

lemma simple_run_Invoke:
  "simple_run table args = Invoke name p \<Longrightarrow>
   \<exists>c \<in> set table. cs_name c = name \<and>
     (\<forall>f. pa_int p f = (case map_of (map (\<lambda>f. (flag_key (fst f), snd f)) (cs_flags c)) f of
                        Some (IntV i) \<Rightarrow> i | Some (DurationV d) \<Rightarrow> d | _ \<Rightarrow> 0))"
  by (auto simp: simple_run_def Let_def find_Some_iff split: list.splits option.splits dest: nth_mem)

definition table_ok :: "command_spec list \<Rightarrow> bool" where
  "table_ok table \<longleftrightarrow> distinct (concat (map command_names table)) \<and>
     list_all (\<lambda>c. distinct (map (\<lambda>f. flag_key (fst f)) (cs_flags c))) table"

lemma cli_ok_run:
  assumes "cli_ok run" "table_ok table"
    and "\<exists>c \<in> set table. cs_name c = name \<and> n \<in> set (command_names c) \<and> cs_flags c = flags"
    and "\<forall>a \<in> set args. take 1 a \<noteq> ''-''"
  shows "\<exists>p. run table (n # args) = Invoke name p \<and> pa_args p = args \<and> list_all (reads_default p) flags"
  using assms by (auto simp: cli_ok_def table_ok_def list_all_iff)

section \<open>A library that parses flags\<close>

text \<open>
  \<open>flags_run\<close> is a library that also reads the flags in front of the arguments, by the rules of
  the package \<open>flag\<close>: one or two dashes, a value after \<open>=\<close> or in the next word, no value needed
  for a switch, \<open>--\<close> as the end of the flags, and errors for flags that the command lacks.
  A numeral is decimal and a duration is not read.
\<close>

definition set_flag :: "flag_value \<Rightarrow> flag_value \<Rightarrow> string \<Rightarrow> flag_value option" where
  "set_flag declared old v =
     (case declared of
        BoolV _ \<Rightarrow> if v = ''true'' then Some (BoolV True) else if v = ''false'' then Some (BoolV False) else None
      | IntV _ \<Rightarrow> map_option IntV (parse_int64 v)
      | DurationV _ \<Rightarrow> None
      | StringV _ \<Rightarrow> Some (StringV v)
      | StringsV ss \<Rightarrow> Some (StringsV ((case old of StringsV ts \<Rightarrow> ts | _ \<Rightarrow> ss) @ [v])))"

definition is_switch :: "flag_value \<Rightarrow> bool" where
  "is_switch v = (case v of BoolV _ \<Rightarrow> True | _ \<Rightarrow> False)"

definition flag_named :: "(string \<times> flag_value) list \<Rightarrow> string \<Rightarrow> (string \<times> flag_value) option" where
  "flag_named flags name = find (\<lambda>f. name \<in> set (split_at_char CHR '','' (fst f))) flags"

fun parse_flags ::
  "(string \<times> flag_value) list \<Rightarrow> string list \<Rightarrow> (string \<times> flag_value) list
     \<Rightarrow> go_err + (string \<times> flag_value) list \<times> string list" where
  "parse_flags flags [] vals = Inr (vals, [])"
| "parse_flags flags (a # as) vals =
     (if take 1 a \<noteq> ''-'' \<or> a = ''-'' then Inr (vals, a # as)
      else if a = ''--'' then Inr (vals, as)
      else
        (let body = drop (if take 2 a = ''--'' then 2 else 1) a;
             name = takeWhile (\<lambda>c. c \<noteq> CHR ''='') body;
             given = drop (length name) body
         in case flag_named flags name of
              None \<Rightarrow> Inl (Errorf ''flag provided but not defined: -%s'' [name])
            | Some (names, declared) \<Rightarrow>
                (let key = flag_key names;
                     set_to = (\<lambda>v. set_flag declared (the (map_of vals key)) v)
                 in if given = [] \<and> is_switch declared then parse_flags flags as ((key, BoolV True) # vals)
                    else if given \<noteq> []
                    then (case set_to (tl given) of
                            None \<Rightarrow> Inl (Errorf ''invalid value %q for flag -%s'' [tl given, name])
                          | Some v \<Rightarrow> parse_flags flags as ((key, v) # vals))
                    else (case as of
                            [] \<Rightarrow> Inl (Errorf ''flag needs an argument: -%s'' [name])
                          | v # as' \<Rightarrow>
                              (case set_to v of
                                 None \<Rightarrow> Inl (Errorf ''invalid value %q for flag -%s'' [v, name])
                               | Some v' \<Rightarrow> parse_flags flags as' ((key, v') # vals))))))"

definition parsed_of :: "string list \<Rightarrow> (string \<times> flag_value) list \<Rightarrow> parsed" where
  "parsed_of args vals =
     \<lparr>pa_args = args,
      pa_bool = (\<lambda>f. case map_of vals f of Some (BoolV b) \<Rightarrow> b | _ \<Rightarrow> False),
      pa_int = (\<lambda>f. case map_of vals f of Some (IntV i) \<Rightarrow> i | Some (DurationV d) \<Rightarrow> d | _ \<Rightarrow> 0),
      pa_string = (\<lambda>f. case map_of vals f of Some (StringV s) \<Rightarrow> s | _ \<Rightarrow> []),
      pa_strings = (\<lambda>f. case map_of vals f of Some (StringsV ss) \<Rightarrow> ss | _ \<Rightarrow> [])\<rparr>"

definition flag_defaults :: "command_spec \<Rightarrow> (string \<times> flag_value) list" where
  "flag_defaults c = map (\<lambda>f. (flag_key (fst f), snd f)) (cs_flags c)"

definition flags_run :: "command_spec list \<Rightarrow> string list \<Rightarrow> cli_outcome" where
  "flags_run table ws =
     (case ws of
        [] \<Rightarrow> NoAction
      | n # as \<Rightarrow>
          (case find (\<lambda>c. n \<in> set (command_names c)) table of
             None \<Rightarrow> CliError (Errorf ''No help topic for %q'' [n])
           | Some c \<Rightarrow>
               (case parse_flags (cs_flags c) as (flag_defaults c) of
                  Inl e \<Rightarrow> CliError e
                | Inr (vals, args) \<Rightarrow> Invoke (cs_name c) (parsed_of args vals))))"

lemma parse_flags_plain: "\<forall>a \<in> set as. take 1 a \<noteq> ''-'' \<Longrightarrow> parse_flags flags as vals = Inr (vals, as)"
  by (cases as) auto

lemma flags_run_ok: "cli_ok flags_run"
proof -
  have "map_of (map (\<lambda>f. (flag_key (fst f), snd f)) fs) (flag_key (fst f)) = Some (snd f)"
    if "distinct (map (\<lambda>f. flag_key (fst f)) fs)" "f \<in> set fs" for fs :: "(string \<times> flag_value) list" and f
    using that by (intro map_of_is_SomeI) (auto simp: comp_def)
  then show ?thesis
    by (auto simp: cli_ok_def flags_run_def find_by_name parse_flags_plain parsed_of_def flag_defaults_def
        list_all_iff reads_default_def split: flag_value.split)
qed

end
