(* ===== verification/Launcher.thy ===== *)
theory Launcher
  imports Calls Paths Breakpoints Cli
begin

text \<open>
  \<open>main.go\<close>: the options of a build, the choice and locking of the root directory, and the
  actions \<open>debug\<close>, \<open>prune\<close>, \<open>du\<close> and their \<open>dap\<close> variants with what they take and give
  back. Everything outside is a call to the world: the file system, the locks, the library
  functions that parse options, and the debug session itself (\<open>Session\<close>).
\<close>

section \<open>Build options\<close>

text \<open>
  The parsers of BuildKit's command package and the providers of a session, as far as they
  can fail; their results are opaque.
\<close>

record build_lib =
  bl_ParseOpt :: "string list \<Rightarrow> go_err + (string \<times> string) list"
  bl_ParseOutput :: "string list \<Rightarrow> go_err + string list"
  bl_ParseSSH :: "string list \<Rightarrow> go_err + string list"
  bl_SSHAgent :: "string list \<Rightarrow> go_err + string"
  bl_ParseSecret :: "string list \<Rightarrow> go_err + string"
  bl_ParseImportCache :: "string list \<Rightarrow> go_err + string list"

datatype attachable = DockerAuth | SSHAgent string | SecretProvider string

record solve_opt =
  so_exports :: "string list"
  so_local_dirs :: "(string \<times> string) list"
  so_frontend_attrs :: "(string \<times> string) list"
  so_session :: "attachable list"
  so_cache_imports :: "string list"

record debug_flags =
  df_args :: "string list"
  df_file :: string
  df_target :: string
  df_build_args :: "string list"
  df_ssh :: "string list"
  df_secrets :: "string list"
  df_cache_from :: "string list"
  df_cache_reuse :: bool
  df_image :: string
  df_startup_timeout :: int

text \<open>The providers of a session, and the cache imports; none is parsed when none is given.\<close>

definition session_providers ::
  "build_lib \<Rightarrow> string list \<Rightarrow> string list \<Rightarrow> go_err + attachable list" where
  "session_providers bl ssh secrets =
     (case (if ssh = [] then Inr []
            else case bl_ParseSSH bl ssh of
                   Inl e \<Rightarrow> Inl e
                 | Inr configs \<Rightarrow> (case bl_SSHAgent bl configs of Inl e \<Rightarrow> Inl e | Inr sp \<Rightarrow> Inr [SSHAgent sp])) of
        Inl e \<Rightarrow> Inl e
      | Inr sps \<Rightarrow>
          if secrets = [] then Inr (DockerAuth # sps)
          else (case bl_ParseSecret bl secrets of
                  Inl e \<Rightarrow> Inl e
                | Inr p \<Rightarrow> Inr (DockerAuth # sps @ [SecretProvider p])))"

definition cache_import_opts :: "string list \<Rightarrow> string list" where
  "cache_import_opts cacheFrom =
     map (\<lambda>opt. if contains ''type='' opt then opt else ''type=registry,ref='' @ opt) cacheFrom"

definition option_strings :: "string option \<Rightarrow> string \<Rightarrow> string list \<Rightarrow> string list" where
  "option_strings file target buildArgs =
     (case file of None \<Rightarrow> [] | Some f \<Rightarrow> [''filename='' @ f]) @
     (if target \<noteq> [] then [''target='' @ target] else []) @
     map (\<lambda>ba. ''build-arg:'' @ ba) buildArgs"

definition first_arg :: "string list \<Rightarrow> string" where
  "first_arg args = (case args of [] \<Rightarrow> [] | a # _ \<Rightarrow> a)"

definition parseSolveOpt :: "build_lib \<Rightarrow> debug_flags \<Rightarrow> go_err + solve_opt" where
  "parseSolveOpt bl f =
     (let ctx = first_arg (df_args f)
      in if ctx = [] then Inl (Errorf ''context needs to be specified'' [])
         else if ctx = ''-'' \<or> contains ''://'' ctx then Inl (Errorf ''unsupported build context: %q'' [ctx])
         else if df_file f = ''-'' then Inl (Errorf ''dockerfile from stdin isn't supported as of now'' [])
         else
           (let dir = fst (Split (df_file f));
                dockerfile = (if df_file f \<noteq> [] \<and> dir \<noteq> [] then dir else ctx);
                file = (if df_file f \<noteq> [] then Some (snd (Split (df_file f))) else None)
            in case bl_ParseOpt bl (option_strings file (df_target f) (df_build_args f)) of
                 Inl e \<Rightarrow> Inl e
               | Inr attrs \<Rightarrow>
                   (case bl_ParseOutput bl [''type=image''] of
                      Inl e \<Rightarrow> Inl e
                    | Inr exports \<Rightarrow>
                        (case session_providers bl (df_ssh f) (df_secrets f) of
                           Inl e \<Rightarrow> Inl e
                         | Inr session \<Rightarrow>
                             (case (if df_cache_from f = [] then Inr []
                                    else bl_ParseImportCache bl (cache_import_opts (df_cache_from f))) of
                                Inl e \<Rightarrow> Inl e
                              | Inr cache \<Rightarrow>
                                  Inr \<lparr>so_exports = exports,
                                       so_local_dirs = [(''context'', ctx), (''dockerfile'', dockerfile)],
                                       so_frontend_attrs = attrs, so_session = session,
                                       so_cache_imports = cache\<rparr>)))))"

section \<open>Directories\<close>

definition defaultServeRootDir :: "string \<Rightarrow> string" where
  "defaultServeRootDir rootDir = Join rootDir ''data''"

definition defaultDAPRootDir :: "string \<Rightarrow> string \<times> string" where
  "defaultDAPRootDir rootDir = (let d = Join rootDir ''dap'' in (d, Join d ''buildg''))"

text \<open>The environment: whether the process runs in a user namespace, and two variables.\<close>

record environ =
  en_rootless :: bool
  en_xdg_data_home :: string
  en_home :: string

definition rootDataDir :: "environ \<Rightarrow> go_err + string" where
  "rootDataDir env =
     (if \<not> en_rootless env then Inr ''/var/lib/buildg''
      else if en_xdg_data_home env \<noteq> [] then Inr (Join (en_xdg_data_home env) ''buildg'')
      else if en_home env = [] then Inl (Errorf ''environment variable HOME is not set'' [])
      else Inr (Join (en_home env) ''.local/share/buildg''))"

record global_flags =
  gf_root :: string
  gf_snapshotter :: string
  gf_net :: string
  gf_cni_config :: string
  gf_cni_binary :: string

record worker_config =
  wc_root :: string
  wc_rootless :: bool
  wc_snapshotter :: string
  wc_net :: string
  wc_cni_config :: string
  wc_cni_binary :: string

section \<open>Calls to the world\<close>

datatype sys =
    MkdirAll string | CreateFile string | FlockEx string | FlockUn string | CloseFile string
  | MkdirTemp string string | RemoveAll string
  | CreateTemp string string | CloseTemp string | RemoveFile string
  | NewReader | CloseReader
  | RunDebug worker_config solve_opt breakpoints string bool bool int
  | RunPrune worker_config bool | RunDu worker_config
  | ServeDap worker_config "sys list" bool

definition parseGlobalWorkerConfig ::
  "sys world \<Rightarrow> environ \<Rightarrow> global_flags \<Rightarrow> (sys, worker_config \<times> string) prog" where
  "parseGlobalWorkerConfig os env gf =
     (let cfg = \<lparr>wc_root = [], wc_rootless = en_rootless env, wc_snapshotter = gf_snapshotter gf,
                 wc_net = gf_net gf, wc_cni_config = gf_cni_config gf, wc_cni_binary = gf_cni_binary gf\<rparr>
      in if gf_root gf = []
         then (case rootDataDir env of
                 Inl e \<Rightarrow> fail e
               | Inr d \<Rightarrow> attempt os (MkdirAll d) (\<lambda>_. ret (cfg, d)))
         else ret (cfg, gf_root gf))"

text \<open>
  \<open>tryLockOnBuildKitRootDir\<close>, with the code after it as its continuation; every caller
  returns its error. \<open>unlock_calls\<close> is the function it returns when it has the lock.
\<close>

definition lock_file :: "string \<Rightarrow> string" where
  "lock_file dir = Join dir ''lock''"

definition EWOULDBLOCK :: go_err where "EWOULDBLOCK = ExtErr ''EWOULDBLOCK''"

definition tryLockOnBuildKitRootDir ::
  "sys world \<Rightarrow> string \<Rightarrow> (bool \<Rightarrow> (sys, 'a) prog) \<Rightarrow> (sys, 'a) prog" where
  "tryLockOnBuildKitRootDir os dir k =
     attempt os (CreateFile (lock_file dir)) (\<lambda>_.
       call os (FlockEx (lock_file dir)) (\<lambda>r.
         case r of
           Inr _ \<Rightarrow> k True
         | Inl e \<Rightarrow>
             call os (CloseFile (lock_file dir)) (\<lambda>_. if e = EWOULDBLOCK then k False else fail e)))"

definition unlock_calls :: "string \<Rightarrow> sys list" where
  "unlock_calls dir = [FlockUn (lock_file dir), CloseFile (lock_file dir)]"

section \<open>The actions\<close>

text \<open>The session of \<open>debugAction\<close> on a root directory; the last deferred call runs first.\<close>

definition run_session ::
  "sys world \<Rightarrow> worker_config \<Rightarrow> solve_opt \<Rightarrow> debug_flags \<Rightarrow> string \<Rightarrow> bool \<Rightarrow> (sys, unit) prog" where
  "run_session os cfg so f serveRoot cleanupAll =
     call os NewReader (\<lambda>_.
       deferred os [CloseReader]
         (attempt os (CreateTemp serveRoot ''buildg-log'') (\<lambda>log.
            deferred os [CloseTemp log, RemoveFile log]
              (case Add NewBreakpoints ''on-fail'' NewOnFailBreakpoint of
                 (_, Inl e) \<Rightarrow> fail e
               | (bp, Inr _) \<Rightarrow>
                   attempt os (RunDebug (cfg\<lparr>wc_root := serveRoot\<rparr>) so bp (df_image f) True cleanupAll
                                 (df_startup_timeout f)) (\<lambda>_. ret ())))))"

definition run_with_root ::
  "sys world \<Rightarrow> worker_config \<Rightarrow> solve_opt \<Rightarrow> debug_flags \<Rightarrow> string \<Rightarrow> string \<Rightarrow> (sys, unit) prog" where
  "run_with_root os cfg so f rootDir serveRoot =
     (if serveRoot = []
      then attempt os (MkdirTemp rootDir ''buildg'') (\<lambda>tmp.
             deferred os [RemoveAll tmp] (run_session os cfg so f tmp True))
      else run_session os cfg so f serveRoot False)"

definition debugAction ::
  "sys world \<Rightarrow> build_lib \<Rightarrow> environ \<Rightarrow> global_flags \<Rightarrow> debug_flags \<Rightarrow> (sys, unit) prog" where
  "debugAction os bl env gf f =
     (case parseSolveOpt bl f of
        Inl e \<Rightarrow> fail e
      | Inr so \<Rightarrow>
          bind (parseGlobalWorkerConfig os env gf) (\<lambda>(cfg, rootDir).
            if df_cache_reuse f
            then (let defaultRoot = defaultServeRootDir rootDir
                  in attempt os (MkdirAll defaultRoot) (\<lambda>_.
                       tryLockOnBuildKitRootDir os defaultRoot (\<lambda>ok.
                         if ok then deferred os (unlock_calls defaultRoot)
                                      (run_with_root os cfg so f rootDir defaultRoot)
                         else run_with_root os cfg so f rootDir [])))
            else run_with_root os cfg so f rootDir []))"

text \<open>\<open>prune\<close>, \<open>du\<close> and their \<open>dap\<close> variants: the same steps around \<open>run\<close>, on their root.\<close>

definition locked_action ::
  "sys world \<Rightarrow> (string \<Rightarrow> string) \<Rightarrow> string \<Rightarrow> (worker_config \<Rightarrow> sys) \<Rightarrow> environ \<Rightarrow> global_flags \<Rightarrow> (sys, unit) prog" where
  "locked_action os root busy run env gf =
     bind (parseGlobalWorkerConfig os env gf) (\<lambda>(cfg, rootDir).
       attempt os (MkdirAll (root rootDir)) (\<lambda>_.
         tryLockOnBuildKitRootDir os (root rootDir) (\<lambda>ok.
           if ok then deferred os (unlock_calls (root rootDir))
                        (attempt os (run (cfg\<lparr>wc_root := root rootDir\<rparr>)) (\<lambda>_. ret ()))
           else fail (Errorf busy []))))"

definition buildg_busy :: string where
  "buildg_busy = ''failed to acquire lock on the root dir; other buildg instance is running?''"

definition dap_busy :: string where
  "dap_busy = ''failed to acquire lock on the root dir; other buildg dap session is running?''"

definition pruneAction where
  "pruneAction os all = locked_action os defaultServeRootDir buildg_busy (\<lambda>cfg. RunPrune cfg all)"

definition duAction where
  "duAction os = locked_action os defaultServeRootDir buildg_busy RunDu"

definition dapPruneAction where
  "dapPruneAction os all = locked_action os (\<lambda>d. snd (defaultDAPRootDir d)) dap_busy (\<lambda>cfg. RunPrune cfg all)"

definition dapDuAction where
  "dapDuAction os = locked_action os (\<lambda>d. snd (defaultDAPRootDir d)) dap_busy RunDu"

text \<open>
  \<open>dapServeAction\<close> does not give the root back itself: the server gets the calls that do
  (\<open>cleanupFunc\<close>). An error of serving is only logged.
\<close>

definition dapServeAction :: "sys world \<Rightarrow> environ \<Rightarrow> global_flags \<Rightarrow> (sys, unit) prog" where
  "dapServeAction os env gf =
     bind (parseGlobalWorkerConfig os env gf) (\<lambda>(cfg, rootDir0).
       (case defaultDAPRootDir rootDir0 of
          (rootDir, serveRoot) \<Rightarrow>
            attempt os (MkdirAll serveRoot) (\<lambda>_.
              tryLockOnBuildKitRootDir os serveRoot (\<lambda>ok.
                if ok then perform os (ServeDap (cfg\<lparr>wc_root := serveRoot\<rparr>) (unlock_calls serveRoot) False) (ret ())
                else attempt os (MkdirTemp rootDir ''buildg'') (\<lambda>tmp.
                       perform os (ServeDap (cfg\<lparr>wc_root := tmp\<rparr>) [RemoveAll tmp] True) (ret ()))))))"

section \<open>The commands of buildg\<close>

text \<open>The flags before the command, and those of \<open>debug\<close>, with their defaults.\<close>

definition global_flag_specs :: "(string \<times> flag_value) list" where
  "global_flag_specs =
     [(''debug'', BoolV False), (''root'', StringsV []), (''oci-worker-snapshotter'', StringV ''auto''),
      (''oci-worker-net'', StringV ''auto''), (''oci-cni-config-path'', StringV ''/etc/buildkit/cni.json''),
      (''oci-cni-binary-path'', StringV ''/opt/cni/bin''), (''rootlesskit-args'', StringV [])]"

definition debug_flag_specs :: "(string \<times> flag_value) list" where
  "debug_flag_specs =
     [(''file,f'', StringV []), (''target'', StringV []), (''build-arg'', StringsV []), (''image'', StringV []),
      (''secret'', StringsV []), (''ssh'', StringsV []), (''cache-from'', StringsV []),
      (''cache-reuse'', BoolV True), (''startup-timeout'', DurationV (3 * 1000000000))]"

definition prune_flag_specs :: "(string \<times> flag_value) list" where
  "prune_flag_specs = [(''all'', BoolV False)]"

definition main_commands :: "command_spec list" where
  "main_commands =
     [\<lparr>cs_name = ''debug'', cs_aliases = [], cs_flags = debug_flag_specs\<rparr>,
      \<lparr>cs_name = ''du'', cs_aliases = [], cs_flags = []\<rparr>,
      \<lparr>cs_name = ''prune'', cs_aliases = [], cs_flags = prune_flag_specs\<rparr>,
      \<lparr>cs_name = ''dap'', cs_aliases = [], cs_flags = []\<rparr>,
      \<lparr>cs_name = ''version'', cs_aliases = [], cs_flags = []\<rparr>]"

text \<open>The subcommands of \<open>dap\<close>; the second is hidden and run by the client's terminal only.\<close>

definition dap_commands :: "command_spec list" where
  "dap_commands =
     [\<lparr>cs_name = ''serve'', cs_aliases = [], cs_flags = [(''log-file'', StringV [])]\<rparr>,
      \<lparr>cs_name = ''_dap_attach_container'', cs_aliases = [], cs_flags = [(''set-tty-raw'', BoolV False)]\<rparr>,
      \<lparr>cs_name = ''prune'', cs_aliases = [], cs_flags = prune_flag_specs\<rparr>,
      \<lparr>cs_name = ''du'', cs_aliases = [], cs_flags = []\<rparr>]"

text \<open>The values that \<open>debugAction\<close> and \<open>parseSolveOpt\<close> read.\<close>

definition debug_flags_of :: "parsed \<Rightarrow> debug_flags" where
  "debug_flags_of p =
     \<lparr>df_args = pa_args p, df_file = pa_string p ''file'', df_target = pa_string p ''target'',
      df_build_args = pa_strings p ''build-arg'', df_ssh = pa_strings p ''ssh'', df_secrets = pa_strings p ''secret'',
      df_cache_from = pa_strings p ''cache-from'', df_cache_reuse = pa_bool p ''cache-reuse'',
      df_image = pa_string p ''image'', df_startup_timeout = pa_int p ''startup-timeout''\<rparr>"

text \<open>The actions by their names; \<open>version\<close> only prints, \<open>dap\<close> runs its own table.\<close>

definition main_action ::
  "sys world \<Rightarrow> build_lib \<Rightarrow> environ \<Rightarrow> global_flags \<Rightarrow> string \<Rightarrow> parsed \<Rightarrow> (sys, unit) prog" where
  "main_action os bl env gf name p =
     (if name = ''debug'' then debugAction os bl env gf (debug_flags_of p)
      else if name = ''du'' then duAction os env gf
      else if name = ''prune'' then pruneAction os (pa_bool p ''all'') env gf
      else ret ())"

definition dap_action :: "sys world \<Rightarrow> environ \<Rightarrow> global_flags \<Rightarrow> string \<Rightarrow> parsed \<Rightarrow> (sys, unit) prog" where
  "dap_action os env gf name p =
     (if name = ''serve'' then dapServeAction os env gf
      else if name = ''prune'' then dapPruneAction os (pa_bool p ''all'') env gf
      else if name = ''du'' then dapDuAction os env gf
      else ret ())"

lemma main_commands_ok: "table_ok main_commands" and dap_commands_ok: "table_ok dap_commands"
  by code_simp+

section \<open>Rootless mode\<close>

text \<open>What \<open>main\<close> does before any command.\<close>

datatype before_step = ReexecRootless | PrepareRootlessChild | GoOn

definition before_command :: "int \<Rightarrow> bool \<Rightarrow> string \<Rightarrow> string \<Rightarrow> before_step" where
  "before_command euid in_userns state_dir enabled =
     (if euid \<noteq> 0 then ReexecRootless
      else if in_userns \<and> state_dir \<noteq> [] \<and> enabled \<noteq> [] then PrepareRootlessChild
      else GoOn)"

text \<open>
  \<open>reexecRootless\<close>: the path, the argument vector and the environment of \<open>syscall.Exec\<close>.
  \<open>unmarshal\<close> is what \<open>json.Unmarshal\<close> leaves in the list; its error is not looked at.
\<close>

definition default_rootlesskit_args :: "string list" where
  "default_rootlesskit_args =
     [''--net=slirp4netns'', ''--copy-up=/etc'', ''--copy-up=/run'', ''--disable-host-loopback'']"

definition reexecRootless ::
  "go_err + string \<Rightarrow> (string \<Rightarrow> string list) \<Rightarrow> string \<Rightarrow> string list \<Rightarrow> string list
     \<Rightarrow> go_err + (string \<times> string list \<times> string list)" where
  "reexecRootless lookPath unmarshal argsStr osArgs env =
     (case lookPath of
        Inl e \<Rightarrow> Inl e
      | Inr arg0 \<Rightarrow>
          (let parsed = (if argsStr \<noteq> [] then unmarshal argsStr else []);
               args = (if length parsed = 0 then default_rootlesskit_args else parsed)
           in Inr (arg0, args @ osArgs, env @ [''_BUILDG_ROOTLESSKIT_ENABLED=1''])))"

text \<open>A program started with an argument vector finds its arguments after the first word.\<close>

definition program_args :: "string list \<Rightarrow> string list" where
  "program_args argv = tl argv"

text \<open>
  \<open>prepareRootlessChild\<close>, with the answers of the two \<open>Lstat\<close> calls (whether the file is
  a symbolic link) and of \<open>Remove\<close>.
\<close>

definition prepareRootlessChild ::
  "(go_err \<Rightarrow> bool) \<Rightarrow> go_err + bool \<Rightarrow> go_err + bool \<Rightarrow> go_err option \<Rightarrow> go_err option" where
  "prepareRootlessChild isNotExist lstat1 lstat2 remove =
     (case lstat1 of
        Inl e \<Rightarrow> if isNotExist e then None else Some e
      | Inr _ \<Rightarrow>
          (case lstat2 of
             Inl e \<Rightarrow> Some (Errvf ''failed to stat runc root: %v'' e)
           | Inr symlink \<Rightarrow>
               if \<not> symlink then Some (Errorf ''unexpected runc root file mode: %v'' []) else remove))"

section \<open>What is held\<close>

datatype resource = Lock string | Handle string | TempDir string | TempFile string | TempHandle string | Reader

definition takes :: "sys \<Rightarrow> answer \<Rightarrow> resource list" where
  "takes c a =
     (case a of
        Inl _ \<Rightarrow> (case c of NewReader \<Rightarrow> [Reader] | _ \<Rightarrow> [])
      | Inr g \<Rightarrow>
          (case c of
             FlockEx f \<Rightarrow> [Lock f]
           | CreateFile f \<Rightarrow> [Handle f]
           | MkdirTemp _ _ \<Rightarrow> [TempDir g]
           | CreateTemp _ _ \<Rightarrow> [TempFile g, TempHandle g]
           | NewReader \<Rightarrow> [Reader]
           | _ \<Rightarrow> []))"

definition gives_back :: "sys \<Rightarrow> resource list" where
  "gives_back c =
     (case c of
        FlockUn f \<Rightarrow> [Lock f]
      | CloseFile f \<Rightarrow> [Handle f]
      | RemoveAll f \<Rightarrow> [TempDir f]
      | CloseTemp f \<Rightarrow> [TempHandle f]
      | RemoveFile f \<Rightarrow> [TempFile f]
      | CloseReader \<Rightarrow> [Reader]
      | _ \<Rightarrow> [])"

definition gain :: "resource \<Rightarrow> sys \<times> answer \<Rightarrow> int" where
  "gain r ca = int (count_list (takes (fst ca) (snd ca)) r) - int (count_list (gives_back (fst ca)) r)"

text \<open>The change that one call makes to a resource, for calls whose answer does not matter.\<close>

definition gives :: "resource \<Rightarrow> sys \<Rightarrow> int" where
  "gives r c = gain r (c, Inl EWOULDBLOCK)"

definition releases :: "sys list \<Rightarrow> bool" where
  "releases cs \<longleftrightarrow> (\<forall>c \<in> set cs. c = CloseReader \<or>
     (\<exists>f. c \<in> {FlockUn f, CloseFile f, RemoveAll f, CloseTemp f, RemoveFile f}))"

lemma gain_releases: "releases cs \<Longrightarrow> c \<in> set cs \<Longrightarrow> gain r (c, a) = gives r c"
  by (auto simp: releases_def gives_def gain_def takes_def dest!: bspec [of _ _ c] split: sum.split)

lemma shifts_deferred_releases:
  "releases cs \<Longrightarrow> shifts (gain r) (n - (\<Sum>c \<leftarrow> cs. gives r c)) p \<Longrightarrow> shifts (gain r) n (deferred os cs p)"
  by (rule shifts_deferred) (auto intro: gain_releases)

lemma releases_simps [simp]:
  "releases []" "releases (unlock_calls d)" "releases [CloseReader]" "releases [RemoveAll d]"
  "releases [CloseTemp f, RemoveFile g]"
  by (auto simp: releases_def unlock_calls_def)

lemma gives_simps [simp]:
  "gives r CloseReader = (if r = Reader then - 1 else 0)"
  "gives r (FlockUn f) = (if r = Lock f then - 1 else 0)"
  "gives r (CloseFile f) = (if r = Handle f then - 1 else 0)"
  "gives r (RemoveAll f) = (if r = TempDir f then - 1 else 0)"
  "gives r (CloseTemp f) = (if r = TempHandle f then - 1 else 0)"
  "gives r (RemoveFile f) = (if r = TempFile f then - 1 else 0)"
  by (auto simp: gives_def gain_def takes_def gives_back_def)

lemma gain_simps [simp]:
  "gain r (NewReader, a) = (if r = Reader then 1 else 0)"
  "gain r (MkdirAll d, a) = 0" "gain r (RunDebug cfg so bp im en al ti, a) = 0"
  "gain r (RunPrune cfg al, a) = 0" "gain r (RunDu cfg, a) = 0" "gain r (ServeDap cfg cs al, a) = 0"
  "gain r (CreateTemp d x, Inl e) = 0" "gain r (MkdirTemp d x, Inl e) = 0"
  "gain r (CreateFile f, Inl e) = 0" "gain r (FlockEx f, Inl e) = 0"
  "gain r (CreateTemp d x, Inr f) = (if r = TempFile f \<or> r = TempHandle f then 1 else 0)"
  "gain r (MkdirTemp d x, Inr f) = (if r = TempDir f then 1 else 0)"
  "gain r (CreateFile f, Inr s) = (if r = Handle f then 1 else 0)"
  "gain r (FlockEx f, Inr s) = (if r = Lock f then 1 else 0)"
  "gain r (CloseFile f, a) = (if r = Handle f then - 1 else 0)"
  by (auto simp: gain_def takes_def gives_back_def split: sum.split)

lemma run_session_shifts: "shifts (gain r) 0 (run_session os cfg so f root all)"
  unfolding run_session_def
  by (intro shifts_call shifts_deferred_releases shifts_attempt)
    (auto intro!: shifts_attempt shifts_ret shifts_fail shifts_deferred_releases split: prod.split sum.split)

lemma run_with_root_shifts: "shifts (gain r) 0 (run_with_root os cfg so f rootDir root)"
  unfolding run_with_root_def
  by (auto intro!: shifts_attempt shifts_deferred_releases
      intro: run_session_shifts [where all = False] simp: run_session_shifts)

definition lock_gain :: "resource \<Rightarrow> string \<Rightarrow> int" where
  "lock_gain r d = (if r = Lock (lock_file d) then 1 else 0) + (if r = Handle (lock_file d) then 1 else 0)"

text \<open>Taking the lock: the continuation runs with the lock and its file, or with neither.\<close>

lemma tryLock_shifts:
  assumes "shifts (gain r) (- lock_gain r d) (k True)"
    and "shifts (gain r) 0 (k False)"
  shows "shifts (gain r) 0 (tryLockOnBuildKitRootDir os d k)"
  unfolding tryLockOnBuildKitRootDir_def
proof (rule shifts_attempt)
  fix s
  show "shifts (gain r) (0 - gain r (CreateFile (lock_file d), Inr s))
     (call os (FlockEx (lock_file d)) (\<lambda>a. case a of Inr _ \<Rightarrow> k True
        | Inl e \<Rightarrow> call os (CloseFile (lock_file d)) (\<lambda>_. if e = EWOULDBLOCK then k False else fail e)))"
  proof (rule shifts_call)
    fix a
    show "shifts (gain r) (0 - gain r (CreateFile (lock_file d), Inr s) - gain r (FlockEx (lock_file d), a))
       (case a of Inr _ \<Rightarrow> k True
        | Inl e \<Rightarrow> call os (CloseFile (lock_file d)) (\<lambda>_. if e = EWOULDBLOCK then k False else fail e))"
    proof (cases a)
      case (Inl e)
      then show ?thesis
        using assms(2) by (auto intro!: shifts_call shifts_fail)
    next
      case (Inr x)
      then show ?thesis
        using assms(1) by (auto simp: lock_gain_def split: if_splits)
    qed
  qed
qed simp

lemma unlock_shifts:
  assumes "shifts (gain r) 0 p"
  shows "shifts (gain r) (- lock_gain r d) (deferred os (unlock_calls d) p)"
proof (rule shifts_deferred_releases)
  have "(\<Sum>c \<leftarrow> unlock_calls d. gives r c) = - lock_gain r d"
    by (simp add: unlock_calls_def lock_gain_def)
  with assms show "shifts (gain r) (- lock_gain r d - (\<Sum>c \<leftarrow> unlock_calls d. gives r c)) p"
    by simp
qed simp

lemma parseGlobalWorkerConfig_shifts: "shifts (gain r) 0 (parseGlobalWorkerConfig os env gf)"
  unfolding parseGlobalWorkerConfig_def Let_def
  by (auto intro!: shifts_attempt shifts_ret shifts_fail split: sum.split)

lemma debugAction_shifts: "shifts (gain r) 0 (debugAction os bl env gf f)"
  unfolding debugAction_def Let_def
  by (auto intro!: shifts_fail shifts_bind shifts_attempt tryLock_shifts unlock_shifts
      simp: parseGlobalWorkerConfig_shifts run_with_root_shifts split: sum.split)

lemma locked_action_shifts:
  assumes "\<And>cfg a. gain r (run cfg, a) = 0"
  shows "shifts (gain r) 0 (locked_action os root busy run env gf)"
  unfolding locked_action_def
  by (auto intro!: shifts_bind shifts_attempt tryLock_shifts unlock_shifts shifts_fail shifts_ret
      simp: parseGlobalWorkerConfig_shifts assms)

section \<open>Properties\<close>

text \<open>The calls that the server of the adapter is given to make at the end of its session.\<close>

primrec left_to_server :: "sys trace \<Rightarrow> sys list" where
  "left_to_server [] = []"
| "left_to_server (x # tr) =
     (case fst x of ServeDap cfg cleanupFunc cleanupAll \<Rightarrow> cleanupFunc | _ \<Rightarrow> []) @ left_to_server tr"

lemma left_to_server_append [simp]: "left_to_server (tr @ tr') = left_to_server tr @ left_to_server tr'"
  by (induction tr) simp_all

definition owes :: "resource \<Rightarrow> sys trace \<Rightarrow> bool" where
  "owes r tr \<longleftrightarrow> level (gain r) tr = int (count_list (concat (map gives_back (left_to_server tr))) r)"

lemma dapServeAction_owes: "owes r (snd (dapServeAction os env gf []))"
proof -
  obtain res tr where parse: "parseGlobalWorkerConfig os env gf [] = (res, tr)"
    by (cases "parseGlobalWorkerConfig os env gf []")
  have "tr = [] \<or> (\<exists>d a. tr = [(MkdirAll d, a)])"
    using parse by (auto simp: parseGlobalWorkerConfig_def go_defs Let_def split: if_splits sum.splits)
  then have tr: "level (gain r) tr = 0" "left_to_server tr = []"
    by auto
  show ?thesis
  proof (cases res)
    case (Ok a)
    with parse tr show ?thesis
      by (cases a) (auto simp: dapServeAction_def owes_def tryLockOnBuildKitRootDir_def defaultDAPRootDir_def
          go_defs Let_def unlock_calls_def gives_back_def split: sum.split)
  qed (use parse tr in \<open>auto simp: dapServeAction_def owes_def bind_def\<close>)
qed


text \<open>
  What a session needs of its root when it starts: the lock of the shared root, or the
  temporary root that it alone has, and then its cache is removed at the end. The server of
  the adapter, which starts its sessions later, needs the same and the calls that give
  this root back.
\<close>

definition root_held :: "sys trace \<Rightarrow> sys \<times> answer \<Rightarrow> bool" where
  "root_held tr x =
     (case fst x of
        RunDebug cfg so bp im entry cleanupAll ti \<Rightarrow>
          (if cleanupAll then level (gain (TempDir (wc_root cfg))) tr = 1
           else level (gain (Lock (lock_file (wc_root cfg)))) tr = 1) \<and>
          level (gain Reader) tr = 1 \<and> entry \<and> Get bp = [''on-fail'' \<mapsto> OnFail]
      | RunPrune cfg all \<Rightarrow> level (gain (Lock (lock_file (wc_root cfg)))) tr = 1
      | RunDu cfg \<Rightarrow> level (gain (Lock (lock_file (wc_root cfg)))) tr = 1
      | ServeDap cfg cleanupFunc cleanupAll \<Rightarrow>
          (if cleanupAll then level (gain (TempDir (wc_root cfg))) tr = 1 \<and> cleanupFunc = [RemoveAll (wc_root cfg)]
           else level (gain (Lock (lock_file (wc_root cfg)))) tr = 1 \<and> cleanupFunc = unlock_calls (wc_root cfg))
      | _ \<Rightarrow> True)"

text \<open>Programs that make only allowed calls when they start where nothing of \<open>d\<close> is held.\<close>

definition safe :: "sys trace \<Rightarrow> (sys, 'a) prog \<Rightarrow> bool" where
  "safe tr p \<longleftrightarrow> (\<exists>new. snd (p tr) = tr @ new \<and> checked root_held tr new)"

lemma safe_ret: "safe tr (ret a)" and safe_fail: "safe tr (fail e)"
  by (auto simp: safe_def ret_def fail_def)

lemma safe_call:
  assumes "\<And>r. root_held tr (c, r)" "\<And>r. safe (tr @ [(c, r)]) (k r)"
  shows "safe tr (call os c k)"
proof -
  obtain new where "snd (k (os tr c) (tr @ [(c, os tr c)])) = (tr @ [(c, os tr c)]) @ new"
      "checked root_held (tr @ [(c, os tr c)]) new"
    using assms(2) [of "os tr c"] by (auto simp: safe_def)
  with assms(1) show ?thesis
    by (intro exI [of _ "(c, os tr c) # new"] safe_def [THEN iffD2]) (simp add: call_def)
qed

lemma safe_attempt:
  "(\<And>r. root_held tr (c, r)) \<Longrightarrow> (\<And>s. safe (tr @ [(c, Inr s)]) (k s)) \<Longrightarrow> safe tr (attempt os c k)"
  unfolding attempt_def by (rule safe_call) (auto simp: safe_fail split: sum.split)

lemma safe_bind:
  assumes "safe tr p" "\<And>a tr'. p tr = (Ok a, tr') \<Longrightarrow> safe tr' (k a)"
  shows "safe tr (bind p k)"
proof (cases "fst (p tr)")
  case (Ok a)
  obtain new where new: "snd (p tr) = tr @ new" "checked root_held tr new"
    using assms(1) by (auto simp: safe_def)
  with Ok have p: "p tr = (Ok a, tr @ new)"
    by (metis prod.collapse)
  then obtain new' where "snd (k a (tr @ new)) = (tr @ new) @ new'" "checked root_held (tr @ new) new'"
    using assms(2) by (auto simp: safe_def)
  with new p show ?thesis
    by (auto simp: safe_def bind_def checked_append)
qed (use assms(1) in \<open>auto simp: safe_def bind_def split: prod.splits\<close>)

lemma root_held_other: "releases [c] \<Longrightarrow> root_held tr (c, r)"
  by (auto simp: releases_def root_held_def)

lemma safe_deferred:
  assumes "safe tr p" "releases cs"
  shows "safe tr (deferred os cs p)"
proof -
  have "\<exists>new. perform_all os cs tr = tr @ new \<and> checked root_held tr new" for tr
    using assms(2)
  proof (induction cs arbitrary: tr)
    case (Cons c cs)
    obtain new where "perform_all os cs (tr @ [(c, os tr c)]) = (tr @ [(c, os tr c)]) @ new"
        "checked root_held (tr @ [(c, os tr c)]) new"
      using Cons.IH [of "tr @ [(c, os tr c)]"] Cons.prems by (auto simp: releases_def)
    with Cons.prems show ?case
      by (intro exI [of _ "(c, os tr c) # new"]) (auto simp: root_held_other releases_def)
  qed simp
  then obtain new' where "perform_all os cs (snd (p tr)) = snd (p tr) @ new'" "checked root_held (snd (p tr)) new'"
    by blast
  moreover obtain new where "snd (p tr) = tr @ new" "checked root_held tr new"
    using assms(1) by (auto simp: safe_def)
  ultimately show ?thesis
    by (auto simp: safe_def deferred_def case_prod_unfold checked_append)
qed

lemma root_held_simps [simp]:
  "root_held tr (NewReader, r)" "root_held tr (MkdirAll d, r)" "root_held tr (CreateFile d, r)"
  "root_held tr (FlockEx d, r)" "root_held tr (CloseFile d, r)" "root_held tr (MkdirTemp d x, r)"
  "root_held tr (CreateTemp d x, r)"
  by (simp_all add: root_held_def)

lemma run_session_safe:
  assumes "level (gain Reader) tr = 0"
    and "level (gain (if all then TempDir root else Lock (lock_file root))) tr = 1"
  shows "safe tr (run_session os cfg so f root all)"
proof -
  obtain bp where bp: "Add NewBreakpoints ''on-fail'' NewOnFailBreakpoint = (bp, Inr ''on-fail'')"
      "Get bp = [''on-fail'' \<mapsto> OnFail]"
    using Add_named [of "''on-fail''" NewBreakpoints NewOnFailBreakpoint]
    by (auto simp: NewBreakpoints_def NewOnFailBreakpoint_def map_entries_def)
  have held: "root_held (tr @ [(NewReader, r1), (CreateTemp root ''buildg-log'', Inr log)])
      (RunDebug (cfg\<lparr>wc_root := root\<rparr>) so bp im True all ti, r2)" for r1 log im ti r2
    using assms bp(2) by (simp add: root_held_def split: if_splits)
  show ?thesis
    unfolding run_session_def bp(1)
    by (auto intro!: safe_call safe_deferred safe_attempt safe_ret simp: held)
qed

lemma parse_safe: "safe [] (parseGlobalWorkerConfig os env gf)"
  unfolding parseGlobalWorkerConfig_def Let_def
  by (auto intro!: safe_attempt safe_ret safe_fail split: sum.split)

lemma parse_trace:
  "parseGlobalWorkerConfig os env gf [] = (Ok a, tr') \<Longrightarrow> tr' = [] \<or> (\<exists>d r. tr' = [(MkdirAll d, r)])"
  by (auto simp: parseGlobalWorkerConfig_def go_defs Let_def split: if_splits sum.splits)

lemma locked_action_safe:
  assumes "\<And>cfg tr r. level (gain (Lock (lock_file (wc_root cfg)))) tr = 1 \<Longrightarrow> root_held tr (run cfg, r)"
  shows "safe [] (locked_action os root busy run env gf)"
  unfolding locked_action_def
proof (rule safe_bind [OF parse_safe], clarify)
  fix cfg rootDir tr'
  assume "parseGlobalWorkerConfig os env gf [] = (Ok (cfg, rootDir), tr')"
  then have [simp]: "level (gain r) tr' = 0" for r
    by (auto dest!: parse_trace)
  show "safe tr' (attempt os (MkdirAll (root rootDir)) (\<lambda>_. tryLockOnBuildKitRootDir os (root rootDir) (\<lambda>ok.
      if ok then deferred os (unlock_calls (root rootDir)) (attempt os (run (cfg\<lparr>wc_root := root rootDir\<rparr>)) (\<lambda>_. ret ()))
      else fail (Errorf busy []))))"
    unfolding tryLockOnBuildKitRootDir_def
    by (auto intro!: safe_attempt safe_call safe_deferred safe_ret safe_fail assms split: sum.split)
qed

lemma debugAction_safe: "safe [] (debugAction os bl env gf f)"
proof (cases "parseSolveOpt bl f")
  case (Inl e)
  then show ?thesis
    by (simp add: debugAction_def safe_fail)
next
  case (Inr so)
  have "safe tr' (if df_cache_reuse f
      then (let defaultRoot = defaultServeRootDir rootDir
            in attempt os (MkdirAll defaultRoot) (\<lambda>_. tryLockOnBuildKitRootDir os defaultRoot (\<lambda>ok.
                 if ok then deferred os (unlock_calls defaultRoot) (run_with_root os cfg so f rootDir defaultRoot)
                 else run_with_root os cfg so f rootDir [])))
      else run_with_root os cfg so f rootDir [])"
    if "parseGlobalWorkerConfig os env gf [] = (Ok (cfg, rootDir), tr')" for cfg rootDir tr'
  proof -
    have [simp]: "level (gain r) tr' = 0" for r
      using parse_trace [OF that] by auto
    have temp: "safe tr (run_with_root os cfg so f rootDir [])" if "\<And>r. r = Reader \<or> (\<exists>d. r = TempDir d) \<Longrightarrow> level (gain r) tr = 0" for tr
      unfolding run_with_root_def
      by (auto intro!: safe_attempt safe_deferred run_session_safe simp: that)
    show ?thesis
      unfolding tryLockOnBuildKitRootDir_def Let_def
      by (auto intro!: safe_attempt safe_call safe_deferred safe_fail temp run_session_safe
          simp: run_with_root_def [of _ _ _ _ _ "defaultServeRootDir rootDir"] split: sum.split)
  qed
  with Inr show ?thesis
    unfolding debugAction_def by (auto intro!: safe_bind [OF parse_safe])
qed

text \<open>The trace after the options: nothing is held.\<close>

lemma parse_level: "parseGlobalWorkerConfig os env gf [] = (Ok a, tr) \<Longrightarrow> level (gain r) tr = 0"
  by (auto dest!: parse_trace)

lemma dapServeAction_safe: "safe [] (dapServeAction os env gf)"
  unfolding dapServeAction_def defaultDAPRootDir_def
proof (rule safe_bind [OF parse_safe], clarify)
  fix cfg rootDir tr'
  assume parse: "parseGlobalWorkerConfig os env gf [] = (Ok (cfg, rootDir), tr')"
  have [simp]: "level (gain r) tr' = 0" for r
    using parse by (rule parse_level)
  show "safe tr' (case (let rootDir = Join rootDir ''dap'' in (rootDir, Join rootDir ''buildg'')) of
     (rootDir, serveRoot) \<Rightarrow>
            attempt os (MkdirAll serveRoot) (\<lambda>_.
              tryLockOnBuildKitRootDir os serveRoot (\<lambda>ok.
                if ok then perform os (ServeDap (cfg\<lparr>wc_root := serveRoot\<rparr>) (unlock_calls serveRoot) False) (ret ())
                else attempt os (MkdirTemp rootDir ''buildg'') (\<lambda>tmp.
                       perform os (ServeDap (cfg\<lparr>wc_root := tmp\<rparr>) [RemoveAll tmp] True) (ret ())))))"
    unfolding tryLockOnBuildKitRootDir_def perform_def Let_def
    by (auto intro!: safe_attempt safe_call safe_ret safe_fail simp: root_held_def split: sum.split)
qed

text \<open>
  C9. No action touches a root directory that another process may be using: whenever a
  session of the terminal, a prune, a du or the server of the adapter starts on a root, the
  action holds the lock of that root at that moment, or the root is the temporary directory
  it has just made, and then (and only then) the session or the server is told to clear the
  cache. The server gets as its clean-up exactly the calls that give this root back, and
  the action makes none of them before. A session of the terminal starts with the input
  taken, stopping on entry, and with exactly the on-fail breakpoint.
\<close>

theorem sessions_own_their_root:
  "checked root_held [] (snd (debugAction os bl env gf f [])) \<and>
   checked root_held [] (snd (pruneAction os all env gf [])) \<and>
   checked root_held [] (snd (duAction os env gf [])) \<and>
   checked root_held [] (snd (dapPruneAction os all env gf [])) \<and>
   checked root_held [] (snd (dapDuAction os env gf [])) \<and>
   checked root_held [] (snd (dapServeAction os env gf []))"
proof -
  have "safe [] (pruneAction os all env gf)" "safe [] (duAction os env gf)"
    "safe [] (dapPruneAction os all env gf)" "safe [] (dapDuAction os env gf)"
    unfolding pruneAction_def duAction_def dapPruneAction_def dapDuAction_def
    by (rule locked_action_safe; simp add: root_held_def)+
  then show ?thesis
    using debugAction_safe dapServeAction_safe by (simp add: safe_def)
qed

text \<open>
  The options of a build are those of the command line: the context is a local
  directory, the Dockerfile is looked for under its own name in the directory it was given
  with (in the context if none was given), the build options are passed on in order, and
  an SSH agent, a secret store or cache imports are set up exactly when asked for, a cache
  import without a type being one of a registry.
\<close>

theorem solve_options_of_flags:
  assumes "parseSolveOpt bl f = Inr so"
  shows "\<exists>ctx. first_arg (df_args f) = ctx \<and> ctx \<noteq> [] \<and> ctx \<noteq> ''-'' \<and> contains ''://'' ctx = False \<and>
    so_local_dirs so = [(''context'', ctx),
       (''dockerfile'', if slash \<in> set (df_file f) then fst (Split (df_file f)) else ctx)] \<and>
    bl_ParseOpt bl
      ((if df_file f = [] then [] else [''filename='' @ snd (Split (df_file f))]) @
       (if df_target f = [] then [] else [''target='' @ df_target f]) @
       map (\<lambda>ba. ''build-arg:'' @ ba) (df_build_args f)) = Inr (so_frontend_attrs so) \<and>
    fst (Split (df_file f)) @ snd (Split (df_file f)) = df_file f \<and>
    ((\<exists>s. SSHAgent s \<in> set (so_session so)) = (df_ssh f \<noteq> [])) \<and>
    ((\<exists>s. SecretProvider s \<in> set (so_session so)) = (df_secrets f \<noteq> [])) \<and>
    (if df_cache_from f = [] then so_cache_imports so = []
     else bl_ParseImportCache bl
            (map (\<lambda>opt. if \<exists>a b. opt = a @ ''type='' @ b then opt else ''type=registry,ref='' @ opt) (df_cache_from f))
          = Inr (so_cache_imports so))"
proof -
  obtain attrs exports session cache where
    parsed: "bl_ParseOpt bl (option_strings (if df_file f \<noteq> [] then Some (snd (Split (df_file f))) else None)
               (df_target f) (df_build_args f)) = Inr attrs"
      "session_providers bl (df_ssh f) (df_secrets f) = Inr session"
      "(if df_cache_from f = [] then Inr [] else bl_ParseImportCache bl (cache_import_opts (df_cache_from f))) = Inr cache"
    and so: "so = \<lparr>so_exports = exports,
        so_local_dirs = [(''context'', first_arg (df_args f)),
          (''dockerfile'', if df_file f \<noteq> [] \<and> fst (Split (df_file f)) \<noteq> [] then fst (Split (df_file f))
                          else first_arg (df_args f))],
        so_frontend_attrs = attrs, so_session = session, so_cache_imports = cache\<rparr>"
    and ctx: "first_arg (df_args f) \<noteq> []" "first_arg (df_args f) \<noteq> ''-''" "\<not> contains ''://'' (first_arg (df_args f))"
    using assms by (auto simp: parseSolveOpt_def Let_def split: if_splits sum.splits)
  have dir: "fst (Split p) \<noteq> [] \<longleftrightarrow> slash \<in> set p" for p
    by (auto simp: Split_def dropWhile_eq_Nil_conv)
  have "(\<exists>s. SSHAgent s \<in> set session) = (df_ssh f \<noteq> [])"
    "(\<exists>s. SecretProvider s \<in> set session) = (df_secrets f \<noteq> [])"
    using parsed(2) by (auto simp: session_providers_def split: if_splits sum.splits)
  moreover have "cache_import_opts cs =
      map (\<lambda>opt. if \<exists>a b. opt = a @ ''type='' @ b then opt else ''type=registry,ref='' @ opt) cs" for cs
    by (simp add: cache_import_opts_def contains_iff)
  ultimately show ?thesis
    using parsed(1,3) ctx dir [of "df_file f"]
    by (auto simp: so option_strings_def Split_append split: if_splits)
qed

definition sample_lib :: build_lib where
  "sample_lib = \<lparr>bl_ParseOpt = (\<lambda>os. Inr (map (\<lambda>s. (s, [])) os)), bl_ParseOutput = Inr, bl_ParseSSH = Inr,
     bl_SSHAgent = (\<lambda>_. Inr ''agent''), bl_ParseSecret = (\<lambda>_. Inr ''store''), bl_ParseImportCache = Inr\<rparr>"

definition sample_flags :: debug_flags where
  "sample_flags = \<lparr>df_args = [''.''], df_file = ''d/Dockerfile'', df_target = [], df_build_args = [''A=1''], df_ssh = [],
     df_secrets = [''id=s''], df_cache_from = [''u/c''], df_cache_reuse = True, df_image = [], df_startup_timeout = 3\<rparr>"

theorem solve_options_of_flags_witness:
  "\<exists>so. parseSolveOpt sample_lib sample_flags = Inr so \<and>
     so_local_dirs so = [(''context'', ''.''), (''dockerfile'', ''d/'')] \<and> (\<exists>s. SecretProvider s \<in> set (so_session so))"
proof -
  have "isl (parseSolveOpt sample_lib sample_flags) = False"
    by code_simp
  then obtain so where so: "parseSolveOpt sample_lib sample_flags = Inr so"
    by (cases "parseSolveOpt sample_lib sample_flags") auto
  have "Split (df_file sample_flags) = (''d/'', ''Dockerfile'')" "slash \<in> set (df_file sample_flags)"
    "df_secrets sample_flags \<noteq> []" "first_arg (df_args sample_flags) = ''.''"
    by code_simp+
  with solve_options_of_flags [OF so] so show ?thesis
    by auto
qed

text \<open>
  Run by another user than root, buildg starts itself under RootlessKit with the
  default options, but the first of them stands in the place of the program's name: of the
  options, RootlessKit finds only those after \<open>--net=slirp4netns\<close>.
\<close>

theorem rootless_first_option_lost:
  "(case reexecRootless (Inr path) unmarshal [] osArgs env of
      Inl e \<Rightarrow> False
    | Inr (arg0, argv, env') \<Rightarrow>
        arg0 = path \<and> argv = ''--net=slirp4netns'' # program_args argv \<and>
        program_args argv = [''--copy-up=/etc'', ''--copy-up=/run'', ''--disable-host-loopback''] @ osArgs)"
  by (simp add: reexecRootless_def default_rootlesskit_args_def program_args_def)

text \<open>
  When the shared root of the DAP server is locked, the server gets a temporary root of
  its own whose removal is entirely left to the server: no call of the action removes it.
\<close>

theorem dap_temporary_root_left_to_server:
  assumes "parseGlobalWorkerConfig os env gf [] = (Ok (cfg, d), tr)"
    and "\<forall>tr'. os tr' (MkdirAll (Join (Join d ''dap'') ''buildg'')) = Inr []"
    and "\<forall>tr'. os tr' (CreateFile (lock_file (Join (Join d ''dap'') ''buildg''))) = Inr []"
    and "\<forall>tr'. os tr' (FlockEx (lock_file (Join (Join d ''dap'') ''buildg''))) = Inl EWOULDBLOCK"
    and "\<forall>tr'. os tr' (MkdirTemp (Join d ''dap'') ''buildg'') = Inr tmp"
  shows "level (gain (TempDir tmp)) (snd (dapServeAction os env gf [])) = 1 \<and>
    fst (last (snd (dapServeAction os env gf []))) = ServeDap (cfg\<lparr>wc_root := tmp\<rparr>) [RemoveAll tmp] True"
proof -
  have "level (gain r) tr = 0" for r
    using parse_trace [OF assms(1)] by auto
  then show ?thesis
    using assms by (simp add: dapServeAction_def defaultDAPRootDir_def tryLockOnBuildKitRootDir_def
        Let_def go_defs)
qed

definition busy_os :: "sys world" where
  "busy_os tr c = (case c of FlockEx _ \<Rightarrow> Inl EWOULDBLOCK | MkdirTemp d p \<Rightarrow> Inr ''/tmp/1'' | _ \<Rightarrow> Inr [])"

theorem dap_temporary_root_left_to_server_witness:
  "level (gain (TempDir ''/tmp/1''))
     (snd (dapServeAction busy_os \<lparr>en_rootless = False, en_xdg_data_home = [], en_home = []\<rparr>
       \<lparr>gf_root = ''/r'', gf_snapshotter = [], gf_net = [], gf_cni_config = [], gf_cni_binary = []\<rparr> [])) = 1"
proof -
  let ?env = "\<lparr>en_rootless = False, en_xdg_data_home = [], en_home = []\<rparr>"
  let ?gf = "\<lparr>gf_root = ''/r'', gf_snapshotter = [], gf_net = [], gf_cni_config = [], gf_cni_binary = []\<rparr>"
  obtain cfg where "parseGlobalWorkerConfig busy_os ?env ?gf [] = (Ok (cfg, ''/r''), [])"
    by (simp add: parseGlobalWorkerConfig_def ret_def)
  from dap_temporary_root_left_to_server [OF this, of "''/tmp/1''"] show ?thesis
    by (simp add: busy_os_def)
qed

text \<open>
  \<open>buildg debug CONTEXT\<close> without further flags debugs that context with the shared cache
  (\<open>--cache-reuse\<close> is on unless it is turned off), without a debug image, and waits three
  seconds for its start; \<open>buildg prune\<close> and \<open>buildg dap prune\<close> keep internal references.
\<close>

theorem plain_debug_command:
  assumes cli: "cli_ok run" and word: "take 1 ctx \<noteq> ''-''"
  shows "\<exists>pd pp pq. run main_commands [''debug'', ctx] = Invoke ''debug'' pd \<and>
      run main_commands [''prune''] = Invoke ''prune'' pp \<and> run dap_commands [''prune''] = Invoke ''prune'' pq \<and>
      main_action os bl env gf ''debug'' pd = debugAction os bl env gf
        \<lparr>df_args = [ctx], df_file = [], df_target = [], df_build_args = [], df_ssh = [], df_secrets = [],
         df_cache_from = [], df_cache_reuse = True, df_image = [], df_startup_timeout = 3000000000\<rparr> \<and>
      main_action os bl env gf ''prune'' pp = pruneAction os False env gf \<and>
      dap_action os env gf ''prune'' pq = dapPruneAction os False env gf"
proof -
  obtain pd where pd: "run main_commands [''debug'', ctx] = Invoke ''debug'' pd" "pa_args pd = [ctx]"
    "list_all (reads_default pd) debug_flag_specs"
    using cli_ok_run [OF cli main_commands_ok, of "''debug''" "''debug''" debug_flag_specs "[ctx]"] word
    by (auto simp: main_commands_def command_names_def)
  obtain pp where pp: "run main_commands [''prune''] = Invoke ''prune'' pp" "list_all (reads_default pp) prune_flag_specs"
    using cli_ok_run [OF cli main_commands_ok, of "''prune''" "''prune''" prune_flag_specs "[]"]
    by (auto simp: main_commands_def command_names_def)
  obtain pq where pq: "run dap_commands [''prune''] = Invoke ''prune'' pq" "list_all (reads_default pq) prune_flag_specs"
    using cli_ok_run [OF cli dap_commands_ok, of "''prune''" "''prune''" prune_flag_specs "[]"]
    by (auto simp: dap_commands_def command_names_def)
  from pd pp pq show ?thesis
    by (intro exI [of _ pd] exI [of _ pp] exI [of _ pq])
      (simp add: main_action_def dap_action_def debug_flags_of_def debug_flag_specs_def prune_flag_specs_def
        reads_default_def flag_key_def)
qed

theorem plain_debug_command_witness:
  "\<exists>pd. simple_run main_commands [''debug'', ''.''] = Invoke ''debug'' pd \<and> df_cache_reuse (debug_flags_of pd)"
proof -
  have "df_cache_reuse (debug_flags_of pd)" if "simple_run main_commands [''debug'', ''.''] = Invoke ''debug'' pd" for pd
    using that by (auto simp: simple_run_def main_commands_def command_names_def debug_flags_of_def debug_flag_specs_def
        flag_key_def Let_def)
  moreover have "take 1 ''.'' \<noteq> ''-''"
    by simp
  ultimately show ?thesis
    using plain_debug_command [OF simple_run_ok] by blast
qed

end
