(* ===== verification/Session.thy ===== *)
theory Session
  imports Launcher Controller
begin

text \<open>
  \<open>pkg/buildkit/client.go\<close>: the worker and the controller client that run inside the
  process, what \<open>Prune\<close> and \<open>Du\<close> print, a debug session with its reload loop and the
  goroutines of one round, and the in-memory listener that connects the client to the
  server. BuildKit, its storage and gRPC are behind \<open>client_call\<close>.
\<close>

section \<open>Worker and client\<close>

datatype client_call =
    OverlaySupported string
  | NewWorkerOpt string string worker_config | NewWorker
  | AddWorker bool
  | NewManager | OpenCacheStore string | OpenHistory string
  | NewGatewayFrontend | NewControl bool
  | ServeGrpc | GracefulStop | NewGrpcClient
  | CallPrune bool | CallDiskUsage

text \<open>
  \<open>newWorker\<close>: with \<open>auto\<close> the snapshotter is overlayfs when the root directory supports it,
  else native; every other name but these two is refused.
\<close>

definition known_snapshotter :: "string \<Rightarrow> bool" where
  "known_snapshotter sn \<longleftrightarrow> sn = ''native'' \<or> sn = ''overlayfs''"

definition newWorker :: "client_call world \<Rightarrow> worker_config \<Rightarrow> (client_call, unit) prog" where
  "newWorker os cfg =
     (let start = (\<lambda>sn. if known_snapshotter sn
                        then attempt os (NewWorkerOpt (wc_root cfg) sn cfg) (\<lambda>_. attempt os NewWorker (\<lambda>_. ret ()))
                        else fail (Errorf ''unknown snapshotter %q'' [sn]))
      in if wc_root cfg = [] then fail (Errorf ''failed to init worker: root directory must be set'' [])
         else if wc_snapshotter cfg = ''auto''
         then call os (OverlaySupported (wc_root cfg))
                (\<lambda>r. start (case r of Inr _ \<Rightarrow> ''overlayfs'' | Inl _ \<Rightarrow> ''native''))
         else start (wc_snapshotter cfg))"

text \<open>
  \<open>newClient\<close> returns the calls that its \<open>done\<close> makes. \<open>debugged\<close>: a debug controller was
  passed, and both the worker and the frontend are wrapped by it.
\<close>

definition newClient ::
  "client_call world \<Rightarrow> worker_config \<Rightarrow> bool \<Rightarrow> (client_call, client_call list) prog" where
  "newClient os cfg debugged =
     (if wc_root cfg = [] then fail (Errorf ''root directory must be specified'' [])
      else
        bind (newWorker os cfg) (\<lambda>_.
        attempt os (AddWorker debugged) (\<lambda>_.
        attempt os NewManager (\<lambda>_.
        attempt os (OpenCacheStore (Join (wc_root cfg) ''cache.db'')) (\<lambda>_.
        attempt os (OpenHistory (Join (wc_root cfg) ''history.db'')) (\<lambda>_.
        attempt os NewGatewayFrontend (\<lambda>_.
        attempt os (NewControl debugged) (\<lambda>_.
        perform os ServeGrpc
          (on_error os [GracefulStop]
             (attempt os NewGrpcClient (\<lambda>_. ret [GracefulStop])))))))))))"

section \<open>Prune and Du\<close>

record usage_info =
  du_ID :: string
  du_InUse :: bool
  du_Size :: int

text \<open>
  A printed line is the list of its tab-separated cells; the tab writer only aligns them.
  \<open>pad_right n\<close> is a width of the verbs \<open>%-71s\<close> and \<open>%-11v\<close>.
\<close>

definition pad_right :: "nat \<Rightarrow> string \<Rightarrow> string" where
  "pad_right n s = s @ replicate (n - length s) CHR '' ''"

definition usage_header :: "string list" where
  "usage_header = [''ID'', ''RECLAIMABLE'', ''SIZE'']"

definition usage_line :: "usage_info \<Rightarrow> string list" where
  "usage_line du =
     [pad_right 71 (du_ID du), pad_right 11 (if du_InUse du then ''false'' else ''true''),
      show_int (du_Size du) @ '' B'']"

definition total_line :: "int \<Rightarrow> string list" where
  "total_line tot = [''Total:'', show_int tot @ '' B'']"

text \<open>
  The goroutine of \<open>Prune\<close> that prints what arrives on the channel, and the loop of \<open>Du\<close>.
  State: the total, whether a line was printed (\<open>first\<close> is false), the output.
\<close>

primrec prune_loop :: "usage_info list \<Rightarrow> int \<times> bool \<times> string list list \<Rightarrow> int \<times> bool \<times> string list list" where
  "prune_loop [] s = s"
| "prune_loop (du # dus) s =
     (case s of (tot, first, out) \<Rightarrow>
        prune_loop dus
          (wrap64 (tot + du_Size du), False,
           out @ (if first then [usage_header] else []) @ [usage_line du]))"

primrec du_loop :: "usage_info list \<Rightarrow> int \<times> string list list \<Rightarrow> int \<times> string list list" where
  "du_loop [] s = s"
| "du_loop (du # dus) s =
     (case s of (tot, out) \<Rightarrow> du_loop dus (wrap64 (tot + du_Size du), out @ [usage_line du]))"

text \<open>
  \<open>stream\<close>: the records that \<open>c.Prune\<close> sends before it returns; \<open>dus\<close>: what
  \<open>c.DiskUsage\<close> returns. The result is what was printed, also when an error is returned;
  the header of \<open>Du\<close> is not flushed before the first line, so an error leaves it out.
\<close>

definition Prune ::
  "client_call world \<Rightarrow> worker_config \<Rightarrow> bool \<Rightarrow> usage_info list \<Rightarrow> (client_call, go_err option \<times> string list list) prog" where
  "Prune os cfg prune_all stream =
     bind (newClient os cfg False) (\<lambda>done. deferred os done
       (call os (CallPrune prune_all) (\<lambda>r.
          case prune_loop stream (0, True, []) of (tot, _, out) \<Rightarrow>
            (case r of Inl e \<Rightarrow> ret (Some e, out) | Inr _ \<Rightarrow> ret (None, out @ [total_line tot])))))"

definition Du ::
  "client_call world \<Rightarrow> worker_config \<Rightarrow> usage_info list \<Rightarrow> (client_call, go_err option \<times> string list list) prog" where
  "Du os cfg dus =
     bind (newClient os cfg False) (\<lambda>done. deferred os done
       (call os CallDiskUsage (\<lambda>r.
          case r of
            Inl e \<Rightarrow> ret (Some e, [])
          | Inr _ \<Rightarrow> (case du_loop dus (0, [usage_header]) of (tot, out) \<Rightarrow> ret (None, out @ [total_line tot])))))"

section \<open>One round of a session\<close>

text \<open>
  \<open>debug\<close> seen as a sequence of builds. Round \<open>n\<close> is the build \<open>builds n\<close>: the events that the
  event loop handles while an error of the loop would be the first of the group, which the
  watching goroutine takes and \<open>eg.Wait\<close> returns; the events that it handles after another
  member of the group has failed or the end of the build has sent the watching goroutine
  away, whose answers are taken by nobody; and the first error of the other two members when
  the loop gave none. The plain printer that is made first does not fail, and a loop that
  ended with an error has left \<open>handle\<close>, so that the next round can enter it.
  The handler is made afresh by \<open>withDebug\<close>; the breakpoints are a pointer in the
  configuration, so what the client did to them is still there in the next round. The state
  that a round leaves is the one after its late events, at which the shell may still be open
  when \<open>debug\<close> returns. Which of the two lists a stop is in is a matter of the goroutines of
  the round, which \<open>round_step\<close> below interleaves.
\<close>

datatype member_error = BuildFailed go_err | PrinterFailed go_err

definition member_result :: "member_error \<Rightarrow> go_err" where
  "member_result f = (case f of BuildFailed e \<Rightarrow> Wrapf ''failed to build: %w'' e | PrinterFailed e \<Rightarrow> e)"

type_synonym build = "debug_event list \<times> debug_event list \<times> member_error option"

definition round_config :: "debug_config \<Rightarrow> handler \<Rightarrow> debug_config" where
  "round_config cfg h =
     cfg\<lparr>dc_breakpoints := (case dc_breakpoints cfg of None \<Rightarrow> None | Some _ \<Rightarrow> Some (h_breakpoints h))\<rparr>"

definition debug_round ::
  "'w break_handler \<Rightarrow> build \<Rightarrow> debug_config \<times> 'w \<Rightarrow> (go_err option \<times> debug_config \<times> 'w) go_result" where
  "debug_round bh b cw =
     (case b of (heard, late, failed) \<Rightarrow> case cw of (cfg, w) \<Rightarrow>
        (case event_loop bh heard (withDebug_handler cfg, w) of
           Panic m \<Rightarrow> Panic m
         | Fail e \<Rightarrow> Fail e
         | Ok (_, Some e, h, w') \<Rightarrow> Ok (Some (Wrapf ''handler error: %w'' e), round_config cfg h, w')
         | Ok (_, None, hw) \<Rightarrow>
             (case event_loop bh late hw of
                Panic m \<Rightarrow> Panic m
              | Fail e \<Rightarrow> Fail e
              | Ok (_, _, h, w') \<Rightarrow> Ok (map_option member_result failed, round_config cfg h, w'))))"

lemma debug_round_heard:
  "event_loop bh (fst b) (withDebug_handler cfg, w) = Ok (ids, Some e, h, w') \<Longrightarrow>
   debug_round bh b (cfg, w) = Ok (Some (Wrapf ''handler error: %w'' e), round_config cfg h, w')"
  by (cases b) (simp add: debug_round_def)

text \<open>\<open>debug\<close> calls itself on \<open>ErrReload\<close>; \<open>None\<close> is a session that is reloaded forever.\<close>

partial_function (option) debug ::
  "'w break_handler \<Rightarrow> (nat \<Rightarrow> build) \<Rightarrow> nat \<Rightarrow> debug_config \<times> 'w
     \<Rightarrow> (go_err option \<times> debug_config \<times> 'w) go_result option" where
  "debug bh builds n cw =
     (case debug_round bh (builds n) cw of
        Ok (Some e, cw') \<Rightarrow>
          if errors_is e ErrReload then debug bh builds (Suc n) cw' else Some (Ok (Some e, cw'))
      | r \<Rightarrow> Some r)"

section \<open>Start and end of a session\<close>

text \<open>
  The select that waits for the goroutine of \<open>newClient\<close>: the context ends first, the
  timer fires first, or the client is ready or has failed.
\<close>

datatype start_race = CancelledFirst go_err | TimerFirst | ClientFirst

text \<open>The timeout in nanoseconds.\<close>

definition startup_timeout :: "int \<Rightarrow> int" where
  "startup_timeout t = (if t = 0 then 3 * 1000000000 else t)"

definition session_result :: "go_err option \<Rightarrow> (client_call, unit) prog" where
  "session_result debugErr =
     (case debugErr of None \<Rightarrow> ret () | Some e \<Rightarrow> if errors_is e ErrExit then ret () else fail e)"

text \<open>
  \<open>Debug\<close>, for a \<open>debug\<close> that returns \<open>debugErr\<close>. When the race is lost the goroutine goes on,
  so its calls are made all the same, and nobody takes its result. \<open>show_duration\<close> is the
  verb \<open>%v\<close> of a duration.
\<close>

definition Debug ::
  "(int \<Rightarrow> string) \<Rightarrow> client_call world \<Rightarrow> worker_config \<Rightarrow> bool \<Rightarrow> int \<Rightarrow> bool \<Rightarrow> start_race \<Rightarrow> go_err option
     \<Rightarrow> (client_call, unit) prog" where
  "Debug show_duration os cfg hasHandler timeout cleanupAll race debugErr =
     (if \<not> hasHandler then fail (Errorf ''BreakpointHandler must not be nil'' [])
      else case race of
        CancelledFirst e \<Rightarrow> (\<lambda>tr. (Fail e, snd (newClient os cfg True tr)))
      | TimerFirst \<Rightarrow>
          (\<lambda>tr. (Fail (Errorf ''timed out to start buildg(%v). other debug session is running?''
                         [show_duration (startup_timeout timeout)]),
                 snd (newClient os cfg True tr)))
      | ClientFirst \<Rightarrow>
          bind (newClient os cfg True) (\<lambda>done. deferred os done
            (if cleanupAll then perform os (CallPrune True) (session_result debugErr)
             else session_result debugErr)))"

section \<open>The goroutines of a round\<close>

text \<open>
  The order in which the goroutines of one \<open>debug\<close> end. \<open>rd_func\<close>: the build function of
  \<open>withDebug\<close>; \<open>rd_loop\<close>: its goroutine, which runs the event loop to its error, offers it on
  the channel and closes the channel; \<open>rd_watch\<close>, \<open>rd_build\<close>, \<open>rd_print\<close>: the three members
  of the error group with their results, \<open>None\<close> while they run; \<open>rd_group\<close>: the first error,
  which is what \<open>eg.Wait\<close> returns once all three have ended.
\<close>

datatype func_phase = NotCalled | Running | Returned
datatype serve_phase = NotStarted | Serving | Offering go_err | Gone

record round_state =
  rd_func :: func_phase
  rd_loop :: serve_phase
  rd_watch :: "go_err option option"
  rd_build :: "go_err option option"
  rd_print :: "go_err option option"
  rd_group :: "go_err option"

definition round_start :: round_state where
  "round_start = \<lparr>rd_func = NotCalled, rd_loop = NotStarted, rd_watch = None, rd_build = None,
                  rd_print = None, rd_group = None\<rparr>"

definition first_error :: "go_err option \<Rightarrow> go_err option \<Rightarrow> go_err option" where
  "first_error g r = (case g of None \<Rightarrow> r | Some e \<Rightarrow> Some e)"

text \<open>The two answers of the client that \<open>Debug\<close> and \<open>debug\<close> look for in an error.\<close>

definition is_answer :: "go_err \<Rightarrow> bool" where
  "is_answer e \<longleftrightarrow> errors_is e ErrReload \<or> errors_is e ErrExit"

text \<open>
  One rule per transition. The errors of \<open>c.Build\<close> and of the printer come from BuildKit and
  wrap neither of the two sentinels of this package. \<open>c.Build\<close> returns after the function
  it called has.
\<close>

inductive round_step :: "round_state \<Rightarrow> round_state \<Rightarrow> bool" where
  call_func: "rd_func s = NotCalled \<Longrightarrow> rd_build s = None \<Longrightarrow>
    round_step s (s\<lparr>rd_func := Running, rd_loop := Serving\<rparr>)"
| loop_error: "rd_loop s = Serving \<Longrightarrow> round_step s (s\<lparr>rd_loop := Offering e\<rparr>)"
| take_error: "rd_loop s = Offering e \<Longrightarrow> rd_watch s = None \<Longrightarrow>
    round_step s (s\<lparr>rd_loop := Gone, rd_watch := Some (Some (Wrapf ''handler error: %w'' e)),
                    rd_group := first_error (rd_group s) (Some (Wrapf ''handler error: %w'' e))\<rparr>)"
| drop_error: "rd_loop s = Offering e \<Longrightarrow> rd_func s = Returned \<Longrightarrow> round_step s (s\<lparr>rd_loop := Gone\<rparr>)"
| take_closed: "rd_loop s = Gone \<Longrightarrow> rd_watch s = None \<Longrightarrow> round_step s (s\<lparr>rd_watch := Some None\<rparr>)"
| take_done: "rd_build s \<noteq> None \<Longrightarrow> rd_watch s = None \<Longrightarrow> round_step s (s\<lparr>rd_watch := Some None\<rparr>)"
| func_return: "rd_func s = Running \<Longrightarrow> round_step s (s\<lparr>rd_func := Returned\<rparr>)"
| build_end: "rd_func s \<noteq> Running \<Longrightarrow> rd_build s = None \<Longrightarrow> \<not> is_answer e \<Longrightarrow>
    r = None \<or> r = Some (Wrapf ''failed to build: %w'' e) \<Longrightarrow>
    round_step s (s\<lparr>rd_build := Some r, rd_group := first_error (rd_group s) r\<rparr>)"
| print_end: "rd_print s = None \<Longrightarrow> \<not> is_answer e \<Longrightarrow> r = None \<or> r = Some e \<Longrightarrow>
    round_step s (s\<lparr>rd_print := Some r, rd_group := first_error (rd_group s) r\<rparr>)"

inductive_cases round_stepE: "round_step s t"

text \<open>An answer in the group's error is the one that the watching goroutine took from the loop.\<close>

definition round_inv :: "round_state \<Rightarrow> bool" where
  "round_inv s \<longleftrightarrow>
     (\<forall>e. rd_group s = Some e \<longrightarrow> is_answer e \<longrightarrow> rd_watch s = Some (Some e)) \<and>
     (\<forall>e. rd_watch s = Some (Some e) \<longrightarrow> rd_loop s = Gone \<and> (\<exists>e'. e = Wrapf ''handler error: %w'' e')) \<and>
     (rd_func s = NotCalled \<longrightarrow> rd_loop s = NotStarted)"

lemma first_error_cases: "first_error g r = Some e \<Longrightarrow> g = Some e \<or> g = None \<and> r = Some e"
  by (cases g) (auto simp: first_error_def)

lemma is_answer_wrap [simp]: "is_answer (Wrapf f e) = is_answer e"
  by (simp add: is_answer_def)

lemma round_inv_start: "round_inv round_start"
  by (simp add: round_inv_def round_start_def)

lemma round_step_inv: "round_step s t \<Longrightarrow> round_inv s \<Longrightarrow> round_inv t"
  by (induction rule: round_step.induct)
    (auto simp: round_inv_def dest!: first_error_cases)

interpretation rounds: inv_system "\<lambda>s. s = round_start" round_step round_inv
  by unfold_locales (auto simp: round_inv_start round_step_inv)

lemma watch_kept: "round_step\<^sup>*\<^sup>* s t \<Longrightarrow> rd_watch s = Some r \<Longrightarrow> rd_watch t = Some r"
  by (induction rule: rtranclp_induct) (auto elim!: round_stepE)

section \<open>The listener\<close>

text \<open>
  \<open>pipeListener\<close>: calls of \<open>dial\<close> and \<open>Accept\<close>, numbered, each first looking at \<open>closed\<close> and
  then selecting between the channel of connections and \<open>done\<close>; a connection is named by
  the dial that made its pipe. \<open>Close\<close> closes \<open>done\<close> once.
\<close>

datatype conn_phase = NoCall | Selecting | Connected nat | Refused

record listener =
  ls_closed :: bool
  ls_dials :: "nat \<Rightarrow> conn_phase"
  ls_accepts :: "nat \<Rightarrow> conn_phase"

definition newPipeListener :: listener where
  "newPipeListener = \<lparr>ls_closed = False, ls_dials = (\<lambda>_. NoCall), ls_accepts = (\<lambda>_. NoCall)\<rparr>"

definition entered :: "listener \<Rightarrow> conn_phase" where
  "entered l = (if ls_closed l then Refused else Selecting)"

inductive listener_step :: "listener \<Rightarrow> listener \<Rightarrow> bool" where
  dial: "ls_dials l i = NoCall \<Longrightarrow> listener_step l (l\<lparr>ls_dials := (ls_dials l)(i := entered l)\<rparr>)"
| accept: "ls_accepts l j = NoCall \<Longrightarrow> listener_step l (l\<lparr>ls_accepts := (ls_accepts l)(j := entered l)\<rparr>)"
| hand_over: "ls_dials l i = Selecting \<Longrightarrow> ls_accepts l j = Selecting \<Longrightarrow>
    listener_step l (l\<lparr>ls_dials := (ls_dials l)(i := Connected i), ls_accepts := (ls_accepts l)(j := Connected i)\<rparr>)"
| dial_done: "ls_closed l \<Longrightarrow> ls_dials l i = Selecting \<Longrightarrow>
    listener_step l (l\<lparr>ls_dials := (ls_dials l)(i := Refused)\<rparr>)"
| accept_done: "ls_closed l \<Longrightarrow> ls_accepts l j = Selecting \<Longrightarrow>
    listener_step l (l\<lparr>ls_accepts := (ls_accepts l)(j := Refused)\<rparr>)"
| close: "listener_step l (l\<lparr>ls_closed := True\<rparr>)"

definition listener_inv :: "listener \<Rightarrow> bool" where
  "listener_inv l \<longleftrightarrow>
     (\<forall>i c. ls_dials l i = Connected c \<longrightarrow> c = i \<and> (\<exists>j. ls_accepts l j = Connected i)) \<and>
     (\<forall>j c. ls_accepts l j = Connected c \<longrightarrow> ls_dials l c = Connected c) \<and>
     (\<forall>j j' c. ls_accepts l j = Connected c \<longrightarrow> ls_accepts l j' = Connected c \<longrightarrow> j = j') \<and>
     (\<forall>i. ls_dials l i = Refused \<longrightarrow> ls_closed l) \<and> (\<forall>j. ls_accepts l j = Refused \<longrightarrow> ls_closed l)"

lemma entered_not [simp]: "entered l \<noteq> Connected c" "entered l = Refused \<longleftrightarrow> ls_closed l"
  by (simp_all add: entered_def)

lemma listener_inv_dial:
  assumes "listener_inv l" "\<forall>c. ls_dials l i \<noteq> Connected c" "\<forall>c. q \<noteq> Connected c" "q = Refused \<longrightarrow> ls_closed l"
  shows "listener_inv (l\<lparr>ls_dials := (ls_dials l)(i := q)\<rparr>)"
  using assms unfolding listener_inv_def by (simp; metis)

lemma listener_inv_accept:
  assumes "listener_inv l" "\<forall>c. ls_accepts l j \<noteq> Connected c" "\<forall>c. q \<noteq> Connected c" "q = Refused \<longrightarrow> ls_closed l"
  shows "listener_inv (l\<lparr>ls_accepts := (ls_accepts l)(j := q)\<rparr>)"
  using assms unfolding listener_inv_def by (simp; metis)

lemma listener_inv_hand_over:
  assumes "listener_inv l" "ls_dials l i = Selecting" "ls_accepts l j = Selecting"
  shows "listener_inv (l\<lparr>ls_dials := (ls_dials l)(i := Connected i), ls_accepts := (ls_accepts l)(j := Connected i)\<rparr>)"
  using assms unfolding listener_inv_def
  by (auto split: if_splits) (metis conn_phase.distinct(7))+

lemma listener_step_inv: "listener_step l l' \<Longrightarrow> listener_inv l \<Longrightarrow> listener_inv l'"
proof (induction rule: listener_step.induct)
  case (close l)
  then show ?case
    by (simp add: listener_inv_def)
qed (simp_all add: listener_inv_dial listener_inv_accept listener_inv_hand_over)

interpretation listeners: inv_system "\<lambda>l. l = newPipeListener" listener_step listener_inv
  by unfold_locales (simp add: listener_inv_def newPipeListener_def, rule listener_step_inv)

section \<open>Rounds\<close>

definition is_reload :: "(go_err option \<times> debug_config \<times> 'w) go_result \<Rightarrow> bool" where
  "is_reload r = (case r of Ok (Some e, _) \<Rightarrow> errors_is e ErrReload | _ \<Rightarrow> False)"

text \<open>The result of round \<open>n\<close>, each round starting with what the one before left.\<close>

primrec nth_round ::
  "'w break_handler \<Rightarrow> (nat \<Rightarrow> build) \<Rightarrow> debug_config \<times> 'w \<Rightarrow> nat
     \<Rightarrow> (go_err option \<times> debug_config \<times> 'w) go_result" where
  "nth_round bh builds cw 0 = debug_round bh (builds 0) cw"
| "nth_round bh builds cw (Suc n) =
     (case nth_round bh builds cw n of
        Ok (_, cw') \<Rightarrow> debug_round bh (builds (Suc n)) cw'
      | r \<Rightarrow> r)"

lemma debug_unfold:
  "debug bh builds n cw =
     (let r = debug_round bh (builds n) cw
      in if is_reload r then (case r of Ok (_, cw') \<Rightarrow> debug bh builds (Suc n) cw' | _ \<Rightarrow> Some r) else Some r)"
  by (subst debug.simps) (auto simp: is_reload_def Let_def split: go_result.splits option.splits)

lemma is_reload_Ok: "is_reload r \<Longrightarrow> \<exists>e cw. r = Ok (e, cw)"
  by (auto simp: is_reload_def split: go_result.splits)

lemma nth_round_shift:
  "debug_round bh (builds n) cw = Ok (e, cw') \<Longrightarrow>
   nth_round bh (\<lambda>i. builds (n + i)) cw (Suc k) = nth_round bh (\<lambda>i. builds (Suc n + i)) cw' k"
  by (induction k) (simp_all split: go_result.splits)

definition ends_at :: "'w break_handler \<Rightarrow> (nat \<Rightarrow> build) \<Rightarrow> debug_config \<times> 'w \<Rightarrow> nat \<Rightarrow> bool" where
  "ends_at bh builds cw k \<longleftrightarrow>
     (\<forall>j < k. is_reload (nth_round bh builds cw j)) \<and> \<not> is_reload (nth_round bh builds cw k)"

lemma ends_at_0 [simp]: "ends_at bh builds cw 0 \<longleftrightarrow> \<not> is_reload (debug_round bh (builds 0) cw)"
  by (simp add: ends_at_def)

lemma ends_at_Suc:
  assumes "debug_round bh (builds n) cw = Ok (e, cw')"
  shows "ends_at bh (\<lambda>i. builds (n + i)) cw (Suc k) \<longleftrightarrow>
    is_reload (debug_round bh (builds n) cw) \<and> ends_at bh (\<lambda>i. builds (Suc n + i)) cw' k"
  using nth_round_shift [of bh builds n, OF assms]
  by (simp add: ends_at_def All_less_Suc2 del: nth_round.simps(2))

lemma debug_stops:
  "ends_at bh (\<lambda>i. builds (n + i)) cw k \<Longrightarrow>
   debug bh builds n cw = Some (nth_round bh (\<lambda>i. builds (n + i)) cw k)"
proof (induction k arbitrary: n cw)
  case 0
  then show ?case
    by (subst debug_unfold) (simp add: Let_def)
next
  case (Suc k)
  then have re: "is_reload (debug_round bh (builds n) cw)"
    by (auto simp: ends_at_def)
  then obtain e cw' where r: "debug_round bh (builds n) cw = Ok (e, cw')"
    using is_reload_Ok by blast
  with Suc re show ?case
    using ends_at_Suc [of bh builds, OF r] nth_round_shift [of bh builds, OF r]
    by (subst debug_unfold) (simp add: Let_def del: nth_round.simps)
qed

lemma debug_returns:
  "debug bh builds n cw = Some r \<Longrightarrow>
   \<exists>k. ends_at bh (\<lambda>i. builds (n + i)) cw k \<and> r = nth_round bh (\<lambda>i. builds (n + i)) cw k"
proof (induction rule: debug.raw_induct [rotated 1, consumes 1])
  case (1 d bh builds n cw r)
  show ?case
  proof (cases "is_reload (debug_round bh (builds n) cw)")
    case True
    then obtain e cw' where rd: "debug_round bh (builds n) cw = Ok (Some e, cw')" "errors_is e ErrReload"
      by (auto simp: is_reload_def split: go_result.splits option.splits)
    with "1"(2) have "d bh builds (Suc n) cw' = Some r"
      by (cases cw') simp
    from "1"(1) [OF this] obtain k where
      "ends_at bh (\<lambda>i. builds (Suc n + i)) cw' k" "r = nth_round bh (\<lambda>i. builds (Suc n + i)) cw' k"
      by blast
    with True show ?thesis
      using ends_at_Suc [of bh builds, OF rd(1)] nth_round_shift [of bh builds, OF rd(1)] by metis
  next
    case False
    with "1"(2) have "r = debug_round bh (builds n) cw"
      by (auto simp: is_reload_def split: go_result.splits option.splits if_splits)
    with False show ?thesis
      by (intro exI [of _ 0]) simp
  qed
qed

section \<open>The embedded server\<close>

text \<open>The number of servers that run, counted over a trace.\<close>

fun servers :: "client_call \<times> answer \<Rightarrow> int" where
  "servers (ServeGrpc, _) = 1"
| "servers (GracefulStop, _) = - 1"
| "servers _ = 0"

lemma shifts_newWorker: "shifts servers 0 (newWorker os cfg)"
  unfolding newWorker_def Let_def by (auto intro!: shifts_rules shifts_call)

text \<open>\<open>newClient\<close> leaves one server behind when it succeeds, and \<open>done\<close> stops it.\<close>

lemma newClient_server:
  "newClient os cfg debugged tr = (r, tr') \<Longrightarrow>
   (case r of
      Ok done \<Rightarrow> done = [GracefulStop] \<and> level servers tr' = level servers tr + 1
    | _ \<Rightarrow> level servers tr' = level servers tr)"
proof -
  have worker: "level servers (snd (newWorker os cfg tr)) = level servers tr"
    using shifts_newWorker [of os cfg] by (simp add: shifts_def)
  assume "newClient os cfg debugged tr = (r, tr')"
  with worker show ?thesis
    by (auto simp: newClient_def go_defs split: prod.splits go_result.splits sum.splits if_splits)
qed

text \<open>Code that runs with a client and defers its \<open>done\<close> gives the server back.\<close>

lemma shifts_with_client:
  assumes "shifts servers 0 p"
  shows "shifts servers 0 (bind (newClient os cfg debugged) (\<lambda>done. deferred os done p))"
  unfolding shifts_def
proof
  fix tr
  obtain r tr' where c: "newClient os cfg debugged tr = (r, tr')"
    by (cases "newClient os cfg debugged tr")
  have "level servers (snd (p tr')) = level servers tr'"
    using assms by (simp add: shifts_def)
  with c newClient_server [OF c]
  show "level servers (snd (bind (newClient os cfg debugged) (\<lambda>done. deferred os done p) tr)) = level servers tr + 0"
    by (cases r) (auto simp: bind_def deferred_def split: prod.splits)
qed

lemma shifts_session_result: "shifts servers 0 (session_result e)"
  by (auto simp: session_result_def intro: shifts_rules split: option.split)

section \<open>Usage totals\<close>

text \<open>The sum of the sizes as an \<open>int64\<close>.\<close>

definition usage_total :: "usage_info list \<Rightarrow> int" where
  "usage_total dus = wrap64 (\<Sum>du \<leftarrow> dus. du_Size du)"

lemma wrap64_add: "wrap64 (wrap64 a + b) = wrap64 (a + b)"
  by (simp add: wrap64_def algebra_simps mod_simps)

lemma du_loop_eq:
  "du_loop dus (wrap64 t, out) = (wrap64 (t + (\<Sum>du \<leftarrow> dus. du_Size du)), out @ map usage_line dus)"
  by (induction dus arbitrary: t out) (simp_all add: wrap64_add add.assoc)

lemma prune_loop_eq:
  "prune_loop dus (wrap64 t, first, out) =
     (wrap64 (t + (\<Sum>du \<leftarrow> dus. du_Size du)), first \<and> dus = [],
      out @ (if first \<and> dus \<noteq> [] then [usage_header] else []) @ map usage_line dus)"
  by (induction dus arbitrary: t first out) (simp_all add: wrap64_add add.assoc)

section \<open>Properties\<close>

text \<open>
  Whatever BuildKit and the storage answer, \<open>Prune\<close>, \<open>Du\<close> and a debug session whose client
  was ready in time stop every server they start, on success and on every error.
\<close>

theorem sessions_stop_their_server:
  "shifts servers 0 (Prune os cfg prune_all stream) \<and> shifts servers 0 (Du os cfg dus) \<and>
   shifts servers 0 (Debug show_duration os cfg hasHandler timeout cleanupAll ClientFirst debugErr)"
proof (intro conjI)
  show "shifts servers 0 (Prune os cfg prune_all stream)"
    unfolding Prune_def
    by (intro shifts_with_client shifts_call) (auto split: sum.split prod.split intro: shifts_rules)
  show "shifts servers 0 (Du os cfg dus)"
    unfolding Du_def
    by (intro shifts_with_client shifts_call) (auto split: sum.split prod.split intro: shifts_rules)
  show "shifts servers 0 (Debug show_duration os cfg hasHandler timeout cleanupAll ClientFirst debugErr)"
    by (auto simp: Debug_def intro!: shifts_with_client shifts_perform shifts_fail shifts_session_result)
qed

text \<open>
  \<open>prune\<close> and \<open>du\<close> print the header, one line for each record with its size in bytes, and
  as total the sum of the sizes reduced to 64 bits; \<open>prune\<close> leaves out the header when it
  removed nothing. After an error \<open>du\<close> prints nothing and \<open>prune\<close> no total.
\<close>

theorem usage_reports:
  "fst (Prune os cfg prune_all dus tr) =
     (case newClient os cfg False tr of
        (Ok _, tr') \<Rightarrow>
          (let printed = (if dus = [] then [] else usage_header # map usage_line dus)
           in case os tr' (CallPrune prune_all) of
                Inl e \<Rightarrow> Ok (Some e, printed)
              | Inr _ \<Rightarrow> Ok (None, printed @ [total_line (usage_total dus)]))
      | (Fail e, _) \<Rightarrow> Fail e | (Panic m, _) \<Rightarrow> Panic m) \<and>
   fst (Du os cfg dus tr) =
     (case newClient os cfg False tr of
        (Ok _, tr') \<Rightarrow>
          (case os tr' CallDiskUsage of
             Inl e \<Rightarrow> Ok (Some e, [])
           | Inr _ \<Rightarrow> Ok (None, usage_header # map usage_line dus @ [total_line (usage_total dus)]))
      | (Fail e, _) \<Rightarrow> Fail e | (Panic m, _) \<Rightarrow> Panic m)"
  using prune_loop_eq [of dus 0 True "[]"] du_loop_eq [of dus 0 "[usage_header]"]
  by (auto simp: usage_total_def Du_def Prune_def Let_def go_defs split: prod.split go_result.split sum.split)

text \<open>
  When the timer of \<open>Debug\<close> fires before the client is ready, \<open>Debug\<close> returns an error, and
  the server that the goroutine of \<open>newClient\<close> still starts is not stopped by anyone.
\<close>

theorem abandoned_start_leaves_server:
  assumes "newClient os cfg True tr = (Ok done, tr')" "0 < timeout"
  shows "Debug show_duration os cfg True timeout cleanupAll TimerFirst debugErr tr =
      (Fail (Errorf ''timed out to start buildg(%v). other debug session is running?'' [show_duration timeout]), tr')
    \<and> level servers tr' = level servers tr + 1"
  using assms newClient_server [OF assms(1)] by (simp add: Debug_def startup_timeout_def)

definition ready_world :: "client_call world" where
  "ready_world tr c = Inr []"

definition ready_config :: worker_config where
  "ready_config = \<lparr>wc_root = ''/r'', wc_rootless = False, wc_snapshotter = ''native'', wc_net = [],
                   wc_cni_config = [], wc_cni_binary = []\<rparr>"

theorem abandoned_start_leaves_server_witness:
  "\<exists>tr'. Debug (\<lambda>_. ''5ns'') ready_world ready_config True 5 False TimerFirst None [] =
      (Fail (Errorf ''timed out to start buildg(%v). other debug session is running?'' [''5ns'']), tr')
    \<and> level servers tr' = 1"
proof -
  obtain tr' where c: "newClient ready_world ready_config True [] = (Ok [GracefulStop], tr')"
    by (simp add: newClient_def newWorker_def known_snapshotter_def go_defs ready_world_def ready_config_def)
  show ?thesis
    using abandoned_start_leaves_server [OF c, of 5 "\<lambda>_. ''5ns''" False None] by simp
qed

text \<open>
  C37. A debug session returns exactly when some round does not end by a reload; then it returns
  the result of the first such round, each round having started with the breakpoints and
  the client's state that the one before left. A session that is reloaded in every round
  does not return.
\<close>

theorem reload_loop_result:
  "(\<forall>r. debug bh builds 0 cw = Some r \<longleftrightarrow>
     (\<exists>k. r = nth_round bh builds cw k \<and> \<not> is_reload r \<and> (\<forall>j < k. is_reload (nth_round bh builds cw j)))) \<and>
   (debug bh builds 0 cw = None \<longleftrightarrow> (\<forall>k. is_reload (nth_round bh builds cw k)))"
proof -
  have iff: "debug bh builds 0 cw = Some r \<longleftrightarrow>
     (\<exists>k. r = nth_round bh builds cw k \<and> \<not> is_reload r \<and> (\<forall>j < k. is_reload (nth_round bh builds cw j)))" for r
    using debug_stops [of bh builds 0 cw] debug_returns [of bh builds 0 cw r]
    by (auto simp: ends_at_def)
  have "\<exists>r. debug bh builds 0 cw = Some r" if "\<exists>k. \<not> is_reload (nth_round bh builds cw k)"
    using exists_least_iff [THEN iffD1, OF that] iff by blast
  with iff show ?thesis
    by (metis not_Some_eq)
qed

text \<open>A client that reloads at its first stop, continues at the others, and counts them.\<close>

definition reload_once :: "nat break_handler" where
  "reload_once info locs hits hw = (if snd hw = 0 then Some ErrReload else None, fst hw, Suc (snd hw))"

definition entry_config :: debug_config where
  "entry_config = \<lparr>dc_breakpoints = Some \<lparr>bp_map = Some [], bp_index = 0\<rparr>, dc_stopOnEntry = True,
                   dc_disableBreakpoints = False\<rparr>"

definition sample_build :: build where
  "sample_build = ([sample_event ''1'' ''a'' None], [], None)"

lemma reload_once_round:
  "debug_round reload_once sample_build (entry_config, n) =
     Ok (if n = 0 then Some (Wrapf ''handler error: %w'' ErrReload) else None, entry_config, Suc n)"
  by (simp add: debug_round_def sample_build_def sample_event_def getLocation_def Handler_handle_def
      withDebug_handler_def entry_config_def getHitBreakpoints_def ForEach_def copy_hits_def reload_once_def
      round_config_def sorted_keys_def)

theorem reload_loop_result_witness:
  "debug reload_once (\<lambda>_. sample_build) 0 (entry_config, 0) = Some (Ok (None, entry_config, 2))"
proof -
  have "nth_round reload_once (\<lambda>_. sample_build) (entry_config, 0) 1 = Ok (None, entry_config, 2)"
    "is_reload (nth_round reload_once (\<lambda>_. sample_build) (entry_config, 0) 0)"
    by (simp_all add: reload_once_round is_reload_def)
  moreover from this have "\<exists>k. Ok (None, entry_config, 2) = nth_round reload_once (\<lambda>_. sample_build) (entry_config, 0) k \<and>
     \<not> is_reload (Ok (None, entry_config, 2 :: nat)) \<and>
     (\<forall>j < k. is_reload (nth_round reload_once (\<lambda>_. sample_build) (entry_config, 0) j))"
    by (intro exI [of _ 1]) (simp add: is_reload_def)
  ultimately show ?thesis
    using reload_loop_result [of reload_once "\<lambda>_. sample_build" "(entry_config, 0)"] by blast
qed

text \<open>
  C38. After a reload that the round heard the next build is debugged with the breakpoints as the client left them,
  and the session counts as not entered again: in a stop-on-entry session the first step
  that has a location opens the client's handler, with the hits of those breakpoints.
\<close>

theorem reload_keeps_breakpoints:
  assumes cfg: "dc_breakpoints cfg = Some b" "dc_stopOnEntry cfg" "\<not> dc_disableBreakpoints cfg"
    and loop: "event_loop bh (fst (builds n)) (withDebug_handler cfg, w) = Ok (ids, Some e, h, w')"
    and reload: "errors_is e ErrReload" and inv: "handler_inv h"
    and next_step: "getLocation (ev_order ev) (rs_vertex (ev_status ev)) = Ok locs" "locs \<noteq> []"
  shows "let cfg' = cfg\<lparr>dc_breakpoints := Some (h_breakpoints h)\<rparr>; h' = withDebug_handler cfg'
     in debug bh builds n (cfg, w) = debug bh builds (Suc n) (cfg', w') \<and>
        Handler_handle bh (ev_status ev) locs (h', w') =
          bh (ev_status ev) locs (getHitBreakpoints (h_breakpoints h) (ev_status ev) locs)
             (h'\<lparr>h_entried := True\<rparr>, w')"
proof -
  let ?cfg' = "cfg\<lparr>dc_breakpoints := Some (h_breakpoints h)\<rparr>"
  have "debug_round bh (builds n) (cfg, w) = Ok (Some (Wrapf ''handler error: %w'' e), ?cfg', w')"
    using debug_round_heard [OF loop] cfg by (simp add: round_config_def)
  then have "debug bh builds n (cfg, w) = debug bh builds (Suc n) (?cfg', w')"
    using reload by (subst debug_unfold) (simp add: is_reload_def Let_def)
  moreover have "handler_inv (withDebug_handler ?cfg')" "stops_at (withDebug_handler ?cfg') (ev_status ev) locs"
    using inv cfg next_step by (simp_all add: handler_inv_def stops_at_def withDebug_handler_def)
  moreover have "h_breakpoints (withDebug_handler ?cfg') = h_breakpoints h"
    by (simp add: withDebug_handler_def)
  ultimately show ?thesis
    by (simp add: Let_def Handler_handle_eq)
qed

theorem reload_keeps_breakpoints_witness:
  "debug reload_once (\<lambda>_. sample_build) 0 (entry_config, 0) = debug reload_once (\<lambda>_. sample_build) 1 (entry_config, 1)"
proof -
  let ?h = "withDebug_handler entry_config"
  have loop: "event_loop reload_once (fst sample_build) (?h, 0) = Ok ([], Some ErrReload, ?h\<lparr>h_entried := True\<rparr>, 1)"
    by (simp add: sample_build_def sample_event_def getLocation_def Handler_handle_def
        withDebug_handler_def entry_config_def getHitBreakpoints_def ForEach_def copy_hits_def reload_once_def
        sorted_keys_def)
  have inv: "handler_inv (?h\<lparr>h_entried := True\<rparr>)"
    by (simp add: handler_inv_def withDebug_handler_def entry_config_def bps_inv_def)
  have loc: "\<exists>locs. getLocation (ev_order (sample_event ''1'' ''a'' None))
      (rs_vertex (ev_status (sample_event ''1'' ''a'' None))) = Ok locs \<and> locs \<noteq> []"
    by (simp add: sample_event_def getLocation_def)
  then obtain locs where locs: "getLocation (ev_order (sample_event ''1'' ''a'' None))
      (rs_vertex (ev_status (sample_event ''1'' ''a'' None))) = Ok locs" "locs \<noteq> []"
    by blast
  have "entry_config\<lparr>dc_breakpoints := Some (h_breakpoints (?h\<lparr>h_entried := True\<rparr>))\<rparr> = entry_config"
    by (simp add: withDebug_handler_def entry_config_def)
  then show ?thesis
    using reload_keeps_breakpoints [OF _ _ _ loop [folded fst_conv] _ inv locs] loop
      reload_keeps_breakpoints [of entry_config "\<lparr>bp_map = Some [], bp_index = 0\<rparr>" reload_once "\<lambda>_. sample_build" 0,
        OF _ _ _ _ _ inv locs]
    by (simp add: Let_def entry_config_def)
qed

text \<open>
  C39. The answers \<open>reload\<close> and \<open>exit\<close> reach the caller of a round only as the error that the
  watching goroutine took from the event loop, and only when no other member of the group
  failed before; once that goroutine has ended because the build ended first, an answer
  typed in the still open shell is never heeded.
\<close>

theorem answers_come_from_the_loop:
  assumes "reach (\<lambda>s. s = round_start) round_step s"
  shows "(\<forall>e. rd_group s = Some e \<longrightarrow> is_answer e \<longrightarrow>
            rd_watch s = Some (Some e) \<and> (\<exists>e'. e = Wrapf ''handler error: %w'' e' \<and> is_answer e')) \<and>
     (\<forall>t e. rd_watch s = Some None \<longrightarrow> round_step\<^sup>*\<^sup>* s t \<longrightarrow> rd_group t = Some e \<longrightarrow> \<not> is_answer e)"
proof -
  have inv: "round_inv s"
    using assms by (rule rounds.reach_inv)
  have "\<not> is_answer e" if "rd_watch s = Some None" "round_step\<^sup>*\<^sup>* s t" "rd_group t = Some e" for t e
  proof
    assume "is_answer e"
    moreover have "round_inv t"
      using that(2) inv by (rule rounds.steps_inv)
    ultimately have "rd_watch t = Some (Some e)"
      using that(3) by (auto simp: round_inv_def)
    moreover have "rd_watch t = Some None"
      using that(2,1) by (rule watch_kept)
    ultimately show False
      by simp
  qed
  with inv show ?thesis
    by (auto simp: round_inv_def)
qed

text \<open>The build ends while the shell is open; the answer comes afterwards.\<close>

definition build_gone :: round_state where
  "build_gone = \<lparr>rd_func = Returned, rd_loop = Serving, rd_watch = Some None, rd_build = Some None,
                 rd_print = None, rd_group = None\<rparr>"

lemma build_gone_reach: "reach (\<lambda>s. s = round_start) round_step build_gone"
proof -
  let ?s0 = round_start
  let ?s1 = "?s0\<lparr>rd_func := Running, rd_loop := Serving\<rparr>"
  let ?s2 = "?s1\<lparr>rd_func := Returned\<rparr>"
  let ?s3 = "?s2\<lparr>rd_build := Some None, rd_group := first_error (rd_group ?s2) None\<rparr>"
  let ?s4 = "?s3\<lparr>rd_watch := Some None\<rparr>"
  have "round_step ?s0 ?s1"
    by (rule call_func) (simp_all add: round_start_def)
  moreover have "round_step ?s1 ?s2"
    by (rule func_return) simp
  moreover have "round_step ?s3 ?s4"
    by (rule take_done) (simp_all add: round_start_def)
  moreover have "round_step ?s2 ?s3"
    by (rule build_end [where e = ErrCanceled]) (simp_all add: round_start_def is_answer_def)
  ultimately have "reach (\<lambda>s. s = round_start) round_step ?s4"
    by (intro reach_step [OF reach_step [OF reach_step [OF reach_step [OF reach_init]]]]) simp
  then show ?thesis
    by (simp add: build_gone_def round_start_def first_error_def)
qed

theorem answers_come_from_the_loop_witness:
  "let t = build_gone\<lparr>rd_loop := Offering ErrReload\<rparr>
   in round_step\<^sup>*\<^sup>* build_gone t \<and> (\<forall>e u. round_step\<^sup>*\<^sup>* t u \<longrightarrow> rd_group u = Some e \<longrightarrow> \<not> is_answer e)"
proof -
  let ?t = "build_gone\<lparr>rd_loop := Offering ErrReload\<rparr>"
  have step: "round_step build_gone ?t"
    by (rule loop_error) (simp add: build_gone_def)
  have "\<not> is_answer e" if "round_step\<^sup>*\<^sup>* ?t u" "rd_group u = Some e" for u e
    using answers_come_from_the_loop [OF build_gone_reach] that step
    by (auto simp: build_gone_def dest: converse_rtranclp_into_rtranclp)
  with step show ?thesis
    by (auto simp: Let_def)
qed

text \<open>
  The in-memory listener: every connection that \<open>dial\<close> returns has its other end returned
  by exactly one \<open>Accept\<close>, no \<open>Accept\<close> returns a connection that was not dialled, and a call
  is refused only after \<open>Close\<close>.
\<close>

theorem connections_are_paired:
  assumes "reach (\<lambda>l. l = newPipeListener) listener_step l"
  shows "(\<forall>i c. ls_dials l i = Connected c \<longrightarrow> (\<exists>!j. ls_accepts l j = Connected c)) \<and>
    (\<forall>j c. ls_accepts l j = Connected c \<longrightarrow> ls_dials l c = Connected c) \<and>
    ((\<exists>i. ls_dials l i = Refused) \<or> (\<exists>j. ls_accepts l j = Refused) \<longrightarrow> ls_closed l)"
  using listeners.reach_inv [OF assms] by (auto simp: listener_inv_def Ex1_def) metis+

theorem connections_are_paired_witness:
  "let l = newPipeListener\<lparr>ls_dials := (\<lambda>_. NoCall)(0 := Connected 0), ls_accepts := (\<lambda>_. NoCall)(0 := Connected 0)\<rparr>
   in ls_dials l 0 = Connected 0 \<and> (\<exists>!j. ls_accepts l j = Connected 0)"
proof -
  let ?l0 = newPipeListener
  let ?l1 = "?l0\<lparr>ls_dials := (ls_dials ?l0)(0 := entered ?l0)\<rparr>"
  let ?l2 = "?l1\<lparr>ls_accepts := (ls_accepts ?l1)(0 := entered ?l1)\<rparr>"
  let ?l3 = "?l2\<lparr>ls_dials := (ls_dials ?l2)(0 := Connected 0), ls_accepts := (ls_accepts ?l2)(0 := Connected 0)\<rparr>"
  have "listener_step ?l0 ?l1"
    by (rule dial) (simp add: newPipeListener_def)
  moreover have "listener_step ?l1 ?l2"
    by (rule accept) (simp add: newPipeListener_def)
  moreover have "listener_step ?l2 ?l3"
    by (rule hand_over) (simp_all add: newPipeListener_def entered_def)
  ultimately have "reach (\<lambda>l. l = newPipeListener) listener_step ?l3"
    by (intro reach_step [OF reach_step [OF reach_step [OF reach_init]]]) simp_all
  from connections_are_paired [OF this] show ?thesis
    by (simp add: newPipeListener_def Let_def)
qed

end
