(* ===== verification/Scanner.thy ===== *)
theory Scanner
  imports Prelude
begin

text \<open>
  Reading lines with the standard library's \<open>bufio.Scanner\<close>, as \<open>list.go\<close>, \<open>log.go\<close> and
  \<open>commands.go\<close> do.
\<close>

text \<open>
  \<open>bufio.Scanner\<close> with \<open>ScanLines\<close>, read to its end: the lines without their newline and
  one trailing carriage return, and whether it stopped because a line does not fit into
  its buffer of 64 KiB (the scanner's \<open>Err()\<close> is then \<open>ErrTooLong\<close>).
\<close>

abbreviation nl :: char where "nl \<equiv> CHR 0x0A"
abbreviation cr :: char where "cr \<equiv> CHR 0x0D"

definition max_token :: nat where "max_token = 65536"

lemma max_token_pos: "0 < max_token"
  by (simp add: max_token_def)

definition drop_cr :: "string \<Rightarrow> string" where
  "drop_cr s = (if s \<noteq> [] \<and> last s = cr then butlast s else s)"

function scan_lines :: "string \<Rightarrow> string list \<times> bool" where
  "scan_lines s =
     (if s = [] then ([], False)
      else if max_token \<le> length (takeWhile (\<lambda>c. c \<noteq> nl) s) then ([], True)
      else (case scan_lines (tl (dropWhile (\<lambda>c. c \<noteq> nl) s)) of
              (ls, e) \<Rightarrow> (drop_cr (takeWhile (\<lambda>c. c \<noteq> nl) s) # ls, e)))"
  by pat_completeness auto

termination
proof (relation "measure length")
  fix s :: string
  assume "s \<noteq> []"
  then show "(tl (dropWhile (\<lambda>c. c \<noteq> nl) s), s) \<in> measure length"
    using length_dropWhile_le [of "\<lambda>c. c \<noteq> nl" s] by (cases s) auto
qed simp

declare scan_lines.simps [simp del]


text \<open>A text of short lines is split into exactly its lines.\<close>

lemma scan_lines_Nil [simp]: "scan_lines [] = ([], False)"
  by (simp add: scan_lines.simps)

lemma scan_lines_line:
  "nl \<notin> set l \<Longrightarrow> length l < max_token \<Longrightarrow>
   scan_lines (l @ nl # rest) = (drop_cr l # fst (scan_lines rest), snd (scan_lines rest))"
proof -
  assume l: "nl \<notin> set l" "length l < max_token"
  show ?thesis
    using l by (subst scan_lines.simps) (simp add: split_first split: prod.splits)
qed

lemma scan_lines_concat:
  "\<forall>l \<in> set ls. nl \<notin> set l \<and> length l < max_token \<Longrightarrow>
   scan_lines (concat (map (\<lambda>l. l @ [nl]) ls)) = (map drop_cr ls, False)"
  by (induction ls) (simp_all add: scan_lines_line)

lemma scan_lines_too_long:
  "\<forall>c \<in> set (take max_token s). c \<noteq> nl \<Longrightarrow> max_token \<le> length s \<Longrightarrow> scan_lines s = ([], True)"
proof -
  assume s: "\<forall>c \<in> set (take max_token s). c \<noteq> nl" "max_token \<le> length s"
  have "takeWhile (\<lambda>c. c \<noteq> nl) s =
        take max_token s @ takeWhile (\<lambda>c. c \<noteq> nl) (drop max_token s)"
    using s(1) by (subst append_take_drop_id [of max_token s, symmetric], subst takeWhile_append2) auto
  then have "max_token \<le> length (takeWhile (\<lambda>c. c \<noteq> nl) s)"
    using s(2) by simp
  moreover have "s \<noteq> []"
    using s(2) max_token_pos by auto
  ultimately show ?thesis
    by (subst scan_lines.simps) simp
qed

end
