(* ===== verification/Listing.thy ===== *)
theory Listing
  imports Handler Scanner
begin

text \<open>
  \<open>list.go\<close>: the \<open>list\<close> command and \<open>printLines\<close>, which prints the source around the
  current step with its breakpoints.
\<close>

section \<open>The window\<close>

text \<open>
  The lines before and after, from the values of the flags \<open>--range\<close>, \<open>-B\<close> and \<open>-A\<close>
  (each is 3 unless given).
\<close>

definition defaultListRange :: int where "defaultListRange = 3"

definition list_window :: "int \<Rightarrow> int \<Rightarrow> int \<Rightarrow> int \<times> int" where
  "list_window rng b a =
     (if b \<noteq> defaultListRange then b else rng, if a \<noteq> defaultListRange then a else rng)"

section \<open>Printing\<close>

text \<open>
  A printed line is its text; the header is the call \<open>Fprintf("Filename: %q\n", name)\<close> with
  its argument.
\<close>

datatype out_line = Header string | Separator | SrcLine string

definition pad4 :: "string \<Rightarrow> string" where
  "pad4 s = replicate (4 - length s) CHR '' '' @ s"

definition render_line :: "bool \<Rightarrow> bool \<Rightarrow> int \<Rightarrow> string \<Rightarrow> out_line" where
  "render_line marked target i txt =
     SrcLine ((if marked then ''*'' else '' '') @ (if target then ''=>'' else ''  '') @
              pad4 (show_int i) @ ''| '' @ txt)"

text \<open>
  The loop over the ranges that sets \<open>(doPrint, target)\<close> and leaves at the first target.
  The sums are 64-bit sums.
\<close>

primrec range_flags :: "bool \<Rightarrow> int \<Rightarrow> int \<Rightarrow> int \<Rightarrow> pb_range list \<Rightarrow> bool \<times> bool \<Rightarrow> bool \<times> bool" where
  "range_flags al before after i [] st = st"
| "range_flags al before after i (r # rs) st =
     (if al \<or> wrap64 (start_line r - before) \<le> i \<and> i \<le> wrap64 (end_line r + after)
      then (if start_line r \<le> i \<and> i \<le> end_line r then (True, True)
            else range_flags al before after i rs (True, snd st))
      else range_flags al before after i rs st)"

text \<open>Whether a breakpoint marks the line: the \<open>ForEach\<close> that stops at the first.\<close>

definition line_marked :: "breakpoints \<Rightarrow> source_info \<Rightarrow> int \<Rightarrow> bool" where
  "line_marked b src i = ForEach b (\<lambda>key bp s. if IsMarked bp src i then (False, True) else (True, s)) False"

text \<open>The loop over the scanned lines, with \<open>(lastLinePrinted, firstPrint, output)\<close>.\<close>

primrec lines_loop ::
  "breakpoints \<Rightarrow> source_info \<Rightarrow> pb_range list \<Rightarrow> int \<Rightarrow> int \<Rightarrow> bool \<Rightarrow> string list \<Rightarrow> int
     \<Rightarrow> bool \<times> bool \<times> out_line list \<Rightarrow> out_line list" where
  "lines_loop b src rs before after al [] i st = snd (snd st)"
| "lines_loop b src rs before after al (txt # txts) i st =
     (case st of (lastPrinted, firstPrint, out) \<Rightarrow>
        (case range_flags al before after i rs (False, False) of
           (doPrint, target) \<Rightarrow>
             if \<not> doPrint then lines_loop b src rs before after al txts (i + 1) (False, firstPrint, out)
             else lines_loop b src rs before after al txts (i + 1)
                    (True, False,
                     out @ (if \<not> lastPrinted \<and> \<not> firstPrint then [Separator] else []) @
                     [render_line (line_marked b src i) target i txt])))"

definition group_sources :: "location list \<Rightarrow> (source_info \<times> pb_range list) list" where
  "group_sources locs =
     fold (\<lambda>l m. AList.update (loc_source l)
                   ((case map_of m (loc_source l) of None \<Rightarrow> [] | Some rs \<Rightarrow> rs) @ loc_ranges l) m) locs []"

definition print_source ::
  "breakpoints \<Rightarrow> int \<Rightarrow> int \<Rightarrow> bool \<Rightarrow> source_info \<Rightarrow> pb_range list \<Rightarrow> out_line list" where
  "print_source b before after al src rs =
     (if rs = [] then []
      else Header (si_filename src) #
           lines_loop b src rs before after al (fst (scan_lines (si_data src))) 1 (False, True, []))"

text \<open>\<open>order\<close> is the order in which the Go map of sources is ranged over.\<close>

definition printLines ::
  "source_info list \<Rightarrow> breakpoints \<Rightarrow> location list \<Rightarrow> int \<Rightarrow> int \<Rightarrow> bool \<Rightarrow> out_line list" where
  "printLines order b locs before after al =
     concat (map (\<lambda>src. case map_of (group_sources locs) src of
                           None \<Rightarrow> []
                         | Some rs \<Rightarrow> print_source b before after al src rs) order)"

definition listAction ::
  "source_info list \<Rightarrow> handler \<Rightarrow> location list \<Rightarrow> int \<Rightarrow> int \<Rightarrow> int \<Rightarrow> bool \<Rightarrow> out_line list" where
  "listAction order h locs rng b a al =
     (case list_window rng b a of
        (before, after) \<Rightarrow> printLines order (h_breakpoints h) locs before after al)"

section \<open>What is printed\<close>

definition near :: "bool \<Rightarrow> int \<Rightarrow> int \<Rightarrow> pb_range \<Rightarrow> int \<Rightarrow> bool" where
  "near al before after r i \<longleftrightarrow>
     al \<or> wrap64 (start_line r - before) \<le> i \<and> i \<le> wrap64 (end_line r + after)"

definition shown :: "bool \<Rightarrow> int \<Rightarrow> int \<Rightarrow> pb_range list \<Rightarrow> int \<Rightarrow> bool" where
  "shown al before after rs i \<longleftrightarrow> (\<exists>r \<in> set rs. near al before after r i)"

definition targeted :: "bool \<Rightarrow> int \<Rightarrow> int \<Rightarrow> pb_range list \<Rightarrow> int \<Rightarrow> bool" where
  "targeted al before after rs i \<longleftrightarrow> (\<exists>r \<in> set rs. near al before after r i \<and> covers r i)"

lemma range_flags_eq:
  "range_flags al before after i rs (dp, False) =
     (dp \<or> shown al before after rs i, targeted al before after rs i)"
  by (induction rs arbitrary: dp) (auto simp: shown_def targeted_def near_def covers_def)

lemma line_marked_iff:
  "line_marked b src i \<longleftrightarrow> (\<exists>k. Get b k = Some (LineBp (si_filename src) i))"
proof -
  have "line_marked b src i \<longleftrightarrow> (\<exists>k bp. Get b k = Some bp \<and> IsMarked bp src i)"
    unfolding line_marked_def by (subst ForEach_find [where P = "\<lambda>bp. IsMarked bp src i" and v = True]) auto
  moreover have "IsMarked bp src i \<longleftrightarrow> bp = LineBp (si_filename src) i" for bp
    by (cases bp) auto
  ultimately show ?thesis
    by simp
qed

text \<open>The lines of a text with their numbers, from a first number on.\<close>

primrec number :: "int \<Rightarrow> string list \<Rightarrow> (int \<times> string) list" where
  "number i [] = []"
| "number i (l # ls) = (i, l) # number (i + 1) ls"

text \<open>
  The specification of a listing: the chosen lines in order, a separator wherever the line
  number jumps.
\<close>

fun with_separators :: "int option \<Rightarrow> (int \<times> out_line) list \<Rightarrow> out_line list" where
  "with_separators prev [] = []"
| "with_separators prev ((i, x) # xs) =
     (case prev of None \<Rightarrow> [] | Some p \<Rightarrow> if i = p + 1 then [] else [Separator]) @
     x # with_separators (Some i) xs"

definition listed ::
  "breakpoints \<Rightarrow> source_info \<Rightarrow> pb_range list \<Rightarrow> int \<Rightarrow> int \<Rightarrow> bool \<Rightarrow> (int \<times> string) list \<Rightarrow> (int \<times> out_line) list" where
  "listed b src rs before after al ls =
     map (\<lambda>(i, txt). (i, render_line (line_marked b src i) (targeted al before after rs i) i txt))
       (filter (\<lambda>(i, txt). shown al before after rs i) ls)"

lemma lines_loop_eq:
  "firstPrint = (prev = None) \<Longrightarrow> (\<And>p. prev = Some p \<Longrightarrow> p < i \<and> (lastPrinted \<longleftrightarrow> p + 1 = i)) \<Longrightarrow>
   lines_loop b src rs before after al txts i (lastPrinted, firstPrint, out) =
   out @ with_separators prev (listed b src rs before after al (number i txts))"
proof (induction txts arbitrary: i lastPrinted firstPrint out prev)
  case Nil
  then show ?case by (simp add: listed_def)
next
  case (Cons tx txs)
  show ?case
  proof (cases "shown al before after rs i")
    case True
    have "lines_loop b src rs before after al txs (i + 1) (True, False, out') =
          out' @ with_separators (Some i) (listed b src rs before after al (number (i + 1) txs))" for out'
      by (rule Cons.IH) auto
    with True Cons.prems show ?thesis
      by (cases prev) (auto simp: range_flags_eq listed_def)
  next
    case False
    have "lines_loop b src rs before after al txs (i + 1) (False, firstPrint, out) =
          out @ with_separators prev (listed b src rs before after al (number (i + 1) txs))"
      using Cons.prems by (intro Cons.IH; force)
    with False show ?thesis
      by (simp add: range_flags_eq listed_def)
  qed
qed

lemma print_source_eq:
  "rs \<noteq> [] \<Longrightarrow> print_source b before after al src rs =
     Header (si_filename src) #
     with_separators None (listed b src rs before after al (number 1 (fst (scan_lines (si_data src)))))"
  using lines_loop_eq [of True None 1 False b src rs before after al _ "[]"]
  by (simp add: print_source_def)

lemma near_exact:
  "range_ok r \<Longrightarrow> \<bar>before\<bar> < 2 ^ 62 \<Longrightarrow> \<bar>after\<bar> < 2 ^ 62 \<Longrightarrow>
   near al before after r i \<longleftrightarrow> al \<or> start_line r - before \<le> i \<and> i \<le> end_line r + after"
proof -
  assume "range_ok r" "\<bar>before\<bar> < 2 ^ 62" "\<bar>after\<bar> < 2 ^ 62"
  then have "in64 (start_line r - before)" "in64 (end_line r + after)"
    by (simp_all add: range_ok_def in32_def in64_def abs_less_iff)
  then show ?thesis
    by (simp add: near_def wrap64_id)
qed

section \<open>Properties\<close>

text \<open>A file of three lines, the second of which is current and marked.\<close>

definition sample_source :: source_info where
  "sample_source = \<lparr>si_addr = 0, si_filename = ''Dockerfile'', si_data = ''A'' @ nl # ''B'' @ nl # ''C'' @ [nl]\<rparr>"

text \<open>
  C34. A listing prints, in order and once, exactly the lines that are in the window of some
  range of the step (all lines with \<open>--all\<close>), each with a star exactly when a line breakpoint
  is set on it, with an arrow exactly when a range covers it in whose window it is, and with
  a separator exactly where the numbers of two printed lines are not consecutive. A window
  is from the start of the range less the lines before to its end plus the lines after, as
  64-bit sums. For numbers of lines before and after from 0 up to \<open>2^62\<close> the sums do not wrap,
  and the arrow is on exactly the lines that the step covers.
\<close>

theorem listing_exact:
  assumes "rs \<noteq> []"
  shows "(let in_window = (\<lambda>r i. al \<or> wrap64 (start_line r - before) \<le> i \<and> i \<le> wrap64 (end_line r + after))
     in print_source b before after al src rs =
        Header (si_filename src) #
        with_separators None
          [(i, render_line (\<exists>k. Get b k = Some (LineBp (si_filename src) i))
                           (\<exists>r \<in> set rs. in_window r i \<and> covers r i) i txt).
             (i, txt) \<leftarrow> number 1 (fst (scan_lines (si_data src))), \<exists>r \<in> set rs. in_window r i]) \<and>
    ((\<forall>r \<in> set rs. range_ok r) \<and> 0 \<le> before \<and> before < 2 ^ 62 \<and> 0 \<le> after \<and> after < 2 ^ 62 \<longrightarrow>
      print_source b before after al src rs =
        Header (si_filename src) #
        with_separators None
          [(i, render_line (\<exists>k. Get b k = Some (LineBp (si_filename src) i)) (\<exists>r \<in> set rs. covers r i) i txt).
             (i, txt) \<leftarrow> number 1 (fst (scan_lines (si_data src))),
             al \<or> (\<exists>r \<in> set rs. start_line r - before \<le> i \<and> i \<le> end_line r + after)])"
proof -
  have exact: "listed b src rs before after al ls =
      [(i, render_line (\<exists>k. Get b k = Some (LineBp (si_filename src) i))
                       (\<exists>r \<in> set rs. near al before after r i \<and> covers r i) i txt).
         (i, txt) \<leftarrow> ls, \<exists>r \<in> set rs. near al before after r i]" for ls
    by (induction ls) (auto simp: listed_def shown_def targeted_def line_marked_iff)
  have small: "(\<exists>r \<in> set rs. near al before after r i \<and> covers r i) = (\<exists>r \<in> set rs. covers r i)"
    "(\<exists>r \<in> set rs. near al before after r i) =
       (al \<or> (\<exists>r \<in> set rs. start_line r - before \<le> i \<and> i \<le> end_line r + after))"
    if ok: "(\<forall>r \<in> set rs. range_ok r) \<and> 0 \<le> before \<and> before < 2 ^ 62 \<and> 0 \<le> after \<and> after < 2 ^ 62" for i
  proof -
    have near: "near al before after r i \<longleftrightarrow> al \<or> start_line r - before \<le> i \<and> i \<le> end_line r + after"
      if "r \<in> set rs" for r
      using near_exact [of r before after al i] ok that by simp
    have "near al before after r i" if "r \<in> set rs" "covers r i" for r
      using near [OF that(1)] that(2) ok by (simp add: covers_def)
    then show "(\<exists>r \<in> set rs. near al before after r i \<and> covers r i) = (\<exists>r \<in> set rs. covers r i)"
      by blast
    show "(\<exists>r \<in> set rs. near al before after r i) =
       (al \<or> (\<exists>r \<in> set rs. start_line r - before \<le> i \<and> i \<le> end_line r + after))"
      using near assms by (cases rs) auto
  qed
  note print = print_source_eq [OF assms, of b before after al src, unfolded exact]
  show ?thesis
    unfolding Let_def near_def [symmetric]
  proof (intro conjI impI)
    assume h: "(\<forall>r \<in> set rs. range_ok r) \<and> 0 \<le> before \<and> before < 2 ^ 62 \<and> 0 \<le> after \<and> after < 2 ^ 62"
    show "print_source b before after al src rs =
        Header (si_filename src) #
        with_separators None
          [(i, render_line (\<exists>k. Get b k = Some (LineBp (si_filename src) i)) (\<exists>r \<in> set rs. covers r i) i txt).
             (i, txt) \<leftarrow> number 1 (fst (scan_lines (si_data src))),
             al \<or> (\<exists>r \<in> set rs. start_line r - before \<le> i \<and> i \<le> end_line r + after)]"
      using print unfolding small [OF h] .
  qed (rule print)
qed

lemma sample_scan: "fst (scan_lines (si_data sample_source)) = [''A'', ''B'', ''C'']"
  using scan_lines_concat [of "[''A'', ''B'', ''C'']"]
  by (simp add: sample_source_def max_token_def drop_cr_def)

lemma listing_exact_witness:
  "print_source (fst (Add NewBreakpoints '''' (LineBp ''Dockerfile'' 2))) 0 1 False sample_source
     [\<lparr>start_line = 2, end_line = 2\<rparr>] =
   [Header ''Dockerfile'', SrcLine ''*=>   2| B'', SrcLine ''      3| C'']"
proof -
  let ?r = "\<lparr>start_line = 2, end_line = 2\<rparr>"
  have "[?r] \<noteq> []" and small: "range_ok ?r" "(0 :: int) < 2 ^ 62" "(1 :: int) < 2 ^ 62"
    by (simp_all add: range_ok_def in32_def)
  note eq = conjunct2 [OF listing_exact [OF this(1), of False 0 1], unfolded line_marked_iff [symmetric]]
  have marked: "line_marked (fst (Add NewBreakpoints '''' (LineBp ''Dockerfile'' 2))) sample_source 2"
    "\<not> line_marked (fst (Add NewBreakpoints '''' (LineBp ''Dockerfile'' 2))) sample_source 3"
    by code_simp+
  have pads: "pad4 (show_int 2) = ''   2''" "pad4 (show_int 3) = ''   3''"
    by code_simp+
  show ?thesis
    by (simp add: eq small sample_scan marked covers_def render_line_def pads)
       (simp add: sample_source_def)
qed

text \<open>
  A window of the largest 64-bit size after the current line makes the sum wrap around
  to a negative number: then not one line is listed, not even the current one.
\<close>

theorem listing_window_overflow:
  assumes "rs \<noteq> []" "\<forall>r \<in> set rs. range_ok r \<and> 1 \<le> end_line r"
  shows "print_source b before (2 ^ 63 - 1) False src rs = [Header (si_filename src)]"
proof -
  have wrap: "wrap64 (end_line r + (2 ^ 63 - 1)) < 1" if "r \<in> set rs" for r
  proof -
    have "1 \<le> end_line r" "end_line r < 2 ^ 31"
      using assms(2) that by (auto simp: range_ok_def in32_def)
    then have "(end_line r + (2 ^ 63 - 1) + 2 ^ 63) mod 2 ^ 64 = end_line r - 1"
      by (simp add: mod_pos_geq)
    with \<open>end_line r < 2 ^ 31\<close> show ?thesis
      by (simp add: wrap64_def)
  qed
  have "\<not> shown False before (2 ^ 63 - 1) rs i" if "1 \<le> i" for i
    using wrap that by (force simp: shown_def near_def)
  then have "listed b src rs before (2 ^ 63 - 1) False (number i ls) = []" if "1 \<le> i" for i ls
    using that by (induction ls arbitrary: i) (auto simp: listed_def)
  then show ?thesis
    by (simp add: print_source_eq [OF assms(1)])
qed

lemma listing_window_overflow_witness:
  "print_source NewBreakpoints 3 (2 ^ 63 - 1) False sample_source [\<lparr>start_line = 2, end_line = 2\<rparr>] =
   [Header ''Dockerfile'']"
  using listing_window_overflow [of "[\<lparr>start_line = 2, end_line = 2\<rparr>]" NewBreakpoints 3 sample_source]
  by (simp add: sample_source_def range_ok_def in32_def)

end
