(* ===== verification/Progress.thy ===== *)
theory Progress
  imports Scanner "HOL-Library.Sublist"
begin

text \<open>
  The build output while a shell is open: \<open>progressWriter\<close> and \<open>signalHandler\<close> of
  \<open>main.go\<close>, and the \<open>log\<close> command of \<open>log.go\<close>. A byte string is a \<open>string\<close>. The locale
  \<open>gate\<close> is what the debug session relies on: nothing is printed while the gate is closed,
  and what was kept back is printed when it opens, as far as the system takes it.
\<close>

section \<open>The progress writer\<close>

text \<open>
  \<open>pw_file\<close> is what the console has received, \<open>pw_log\<close> what the log file holds. The
  operating system decides how much of a write it takes: an outcome is the number of
  bytes written and the error. An error of the log file is only logged.
\<close>

type_synonym write_outcome = "nat \<times> go_err option"

record progress_writer =
  pw_enabled :: bool
  pw_buf :: string
  pw_file :: string
  pw_log :: "string option"

definition newProgressWriter :: progress_writer where
  "newProgressWriter = \<lparr>pw_enabled = True, pw_buf = [], pw_file = [], pw_log = Some []\<rparr>"

definition pw_disable :: "progress_writer \<Rightarrow> progress_writer" where
  "pw_disable w = w\<lparr>pw_enabled := False\<rparr>"

definition pw_enable :: "write_outcome \<Rightarrow> progress_writer \<Rightarrow> progress_writer" where
  "pw_enable out w =
     (let w1 = w\<lparr>pw_enabled := True\<rparr>
      in if 0 < length (pw_buf w1)
         then w1\<lparr>pw_file := pw_file w1 @ take (fst out) (pw_buf w1), pw_buf := []\<rparr>
         else w1)"

definition pw_buffered :: "progress_writer \<Rightarrow> string" where
  "pw_buffered w = (if 0 < length (pw_buf w) then pw_buf w else [])"

definition pw_Write ::
  "write_outcome \<Rightarrow> write_outcome \<Rightarrow> string \<Rightarrow> progress_writer \<Rightarrow> (nat \<times> go_err option) \<times> progress_writer" where
  "pw_Write log_out out p w =
     (let w1 = (case pw_log w of None \<Rightarrow> w | Some l \<Rightarrow> w\<lparr>pw_log := Some (l @ take (fst log_out) p)\<rparr>)
      in if \<not> pw_enabled w1 then ((length p, None), w1\<lparr>pw_buf := pw_buf w1 @ p\<rparr>)
         else (out, w1\<lparr>pw_file := pw_file w1 @ take (fst out) p\<rparr>))"

text \<open>
  The contract. What an outcome says of a write or of an opening is the number of elements
  that get through; the rest of them is gone.
\<close>

locale gate =
  fixes close_gate :: "'s \<Rightarrow> 's"
    and open_gate :: "'o \<Rightarrow> 's \<Rightarrow> 's"
    and put :: "'q \<Rightarrow> 'b list \<Rightarrow> 's \<Rightarrow> 's"
    and let_through :: "'o \<Rightarrow> nat"
    and taken :: "'q \<Rightarrow> nat"
    and emitted :: "'s \<Rightarrow> 'b list"
    and pending :: "'s \<Rightarrow> 'b list"
    and is_open :: "'s \<Rightarrow> bool"
  assumes put_open: "is_open s \<Longrightarrow>
      is_open (put q p s) \<and> emitted (put q p s) = emitted s @ take (taken q) p \<and> pending (put q p s) = pending s"
    and put_closed: "\<not> is_open s \<Longrightarrow>
      \<not> is_open (put q p s) \<and> emitted (put q p s) = emitted s \<and> pending (put q p s) = pending s @ p"
    and close: "\<not> is_open (close_gate s) \<and> emitted (close_gate s) = emitted s \<and> pending (close_gate s) = pending s"
    and open_all: "is_open (open_gate out s) \<and>
      emitted (open_gate out s) = emitted s @ take (let_through out) (pending s) \<and> pending (open_gate out s) = []"
begin

lemma puts_closed:
  "\<not> is_open s \<Longrightarrow>
   (let s' = fold (\<lambda>(q, p). put q p) ps s
    in \<not> is_open s' \<and> emitted s' = emitted s \<and> pending s' = pending s @ concat (map snd ps))"
  by (induction ps arbitrary: s) (simp_all add: put_closed Let_def case_prod_unfold)

text \<open>
  While the gate is closed nothing comes out; when it opens again, as much as gets through
  of all that is pending comes out, in order, and nothing is pending any more.
\<close>

lemma closed_section:
  "let s' = fold (\<lambda>(q, p). put q p) ps (close_gate s)
   in emitted s' = emitted s \<and>
      emitted (open_gate out s') = emitted s @ take (let_through out) (pending s @ concat (map snd ps)) \<and>
      pending (open_gate out s') = []"
  using puts_closed [of "close_gate s" ps] close [of s]
    open_all [of out "fold (\<lambda>(q, p). put q p) ps (close_gate s)"] by (simp add: Let_def)

end

text \<open>A write with the outcomes of the log file and of the console.\<close>

definition pw_put :: "write_outcome \<times> write_outcome \<Rightarrow> string \<Rightarrow> progress_writer \<Rightarrow> progress_writer" where
  "pw_put outs p w = snd (pw_Write (fst outs) (snd outs) p w)"

interpretation pw: gate pw_disable pw_enable pw_put fst "\<lambda>outs. fst (snd outs)" pw_file pw_buf pw_enabled
  by unfold_locales (auto simp: pw_disable_def pw_put_def pw_enable_def pw_Write_def Let_def split: option.splits)

section \<open>Histories of the writer\<close>

text \<open>
  The calls of the writer, each with what the system makes of the writes it does: the
  outcomes of the log file and the console for a write, that of the console for an enabling.
\<close>

datatype pw_event = PWrite string "write_outcome \<times> write_outcome" | PDisable | PEnable write_outcome

primrec pw_step :: "progress_writer \<Rightarrow> pw_event \<Rightarrow> progress_writer" where
  "pw_step w (PWrite p outs) = pw_put outs p w"
| "pw_step w PDisable = pw_disable w"
| "pw_step w (PEnable out) = pw_enable out w"

fun written :: "pw_event list \<Rightarrow> string" where
  "written [] = []"
| "written (PWrite p _ # es) = p @ written es"
| "written (e # es) = written es"

text \<open>
  The bytes that the console did not take, in a write, whose caller gets the number, and in
  an enabling, which nobody hears of; and those that the log file did not take.
\<close>

primrec short_by :: "progress_writer \<Rightarrow> pw_event \<Rightarrow> nat" where
  "short_by w (PWrite p outs) = (if pw_enabled w then length p - fst (snd outs) else 0)"
| "short_by w PDisable = 0"
| "short_by w (PEnable out) = length (pw_buf w) - fst out"

primrec unprinted :: "progress_writer \<Rightarrow> pw_event list \<Rightarrow> nat" where
  "unprinted w [] = 0"
| "unprinted w (e # es) = short_by w e + unprinted (pw_step w e) es"

fun unlogged :: "pw_event list \<Rightarrow> nat" where
  "unlogged [] = 0"
| "unlogged (PWrite p outs # es) = (length p - fst (fst outs)) + unlogged es"
| "unlogged (e # es) = unlogged es"

text \<open>The bytes \<open>kept\<close> of \<open>bytes\<close>, in order, with \<open>n\<close> of them missing.\<close>

definition kept_of :: "string \<Rightarrow> nat \<Rightarrow> string \<Rightarrow> bool" where
  "kept_of bytes n kept \<longleftrightarrow> subseq kept bytes \<and> length kept + n = length bytes"

lemma subseq_take: "subseq xs ys \<Longrightarrow> subseq (xs @ take k p) (ys @ p)"
  by (rule list_emb_append_mono) (auto intro: prefix_imp_subseq take_is_prefix)

lemma kept_of_write: "kept_of bytes n kept \<Longrightarrow> kept_of (bytes @ p) (n + (length p - k)) (kept @ take k p)"
  by (auto simp: kept_of_def subseq_take min_def)

lemma kept_of_flush:
  "kept_of bytes n (kept @ buf) \<Longrightarrow> kept_of bytes (n + (length buf - k)) (kept @ take k buf)"
  using subseq_take [of kept kept k buf] by (auto simp: kept_of_def intro: subseq_order.order_trans)

lemma kept_of_all: "kept_of bytes 0 kept \<Longrightarrow> kept = bytes"
  by (auto simp: kept_of_def subseq_same_length)

definition pw_inv :: "string \<Rightarrow> nat \<Rightarrow> nat \<Rightarrow> progress_writer \<Rightarrow> bool" where
  "pw_inv bytes m l w \<longleftrightarrow> kept_of bytes m (pw_file w @ pw_buf w) \<and>
     (\<exists>log. pw_log w = Some log \<and> kept_of bytes l log) \<and> (pw_enabled w \<longrightarrow> pw_buf w = [])"

lemma pw_step_inv:
  assumes "pw_inv bytes m l w"
  shows "pw_inv (bytes @ written [e]) (m + short_by w e) (l + unlogged [e]) (pw_step w e)"
proof (cases e)
  case (PWrite p outs)
  obtain log where "pw_log w = Some log" "kept_of bytes l log"
    using assms by (auto simp: pw_inv_def)
  moreover have "kept_of (bytes @ p) m (pw_file w @ pw_buf w @ p)"
    using kept_of_write [of bytes m "pw_file w @ pw_buf w" p "length p"] assms by (simp add: pw_inv_def)
  moreover have "kept_of (bytes @ p) (m + (length p - fst (snd outs))) (pw_file w @ pw_buf w @ take (fst (snd outs)) p)"
    using kept_of_write [of bytes m "pw_file w @ pw_buf w" p "fst (snd outs)"] assms by (simp add: pw_inv_def)
  ultimately show ?thesis
    using assms kept_of_write PWrite by (auto simp: pw_inv_def pw_put_def pw_Write_def Let_def)
next
  case (PEnable out)
  have "kept_of bytes (m + (length (pw_buf w) - fst out)) (pw_file w @ take (fst out) (pw_buf w))"
    using kept_of_flush assms by (simp add: pw_inv_def)
  with assms PEnable show ?thesis
    by (auto simp: pw_inv_def pw_enable_def Let_def)
qed (use assms in \<open>auto simp: pw_inv_def pw_disable_def\<close>)

lemma pw_run_inv:
  "pw_inv bytes m l w \<Longrightarrow>
   pw_inv (bytes @ written es) (m + unprinted w es) (l + unlogged es) (foldl pw_step w es)"
proof (induction es arbitrary: bytes m l w)
  case (Cons e es)
  have "written (e # es) = written [e] @ written es" "unlogged (e # es) = unlogged [e] + unlogged es"
    by (cases e; simp)+
  with Cons.IH [OF pw_step_inv [OF Cons.prems, of e]] show ?case
    by (simp add: add.assoc)
qed simp

section \<open>Signals\<close>

text \<open>
  The signal handler of a session cancels its context; \<open>exec\<close> disables it while the
  container's own process takes the signals. An interrupt that arrives while it is
  disabled is dropped.
\<close>

record signal_handler =
  sig_enabled :: bool
  sig_cancelled :: bool

datatype sig_event = SigDisable | SigEnable | Interrupt

primrec sig_step :: "signal_handler \<Rightarrow> sig_event \<Rightarrow> signal_handler" where
  "sig_step h SigDisable = h\<lparr>sig_enabled := False\<rparr>"
| "sig_step h SigEnable = h\<lparr>sig_enabled := True\<rparr>"
| "sig_step h Interrupt = (if \<not> sig_enabled h then h else h\<lparr>sig_cancelled := True\<rparr>)"

definition sig_start :: signal_handler where
  "sig_start = \<lparr>sig_enabled = True, sig_cancelled = False\<rparr>"

lemma sig_run_disabled:
  "\<not> sig_enabled h \<Longrightarrow> SigEnable \<notin> set es \<Longrightarrow> foldl sig_step h es = h"
proof (induction es)
  case (Cons e es)
  then show ?case by (cases e; cases h) auto
qed simp

section \<open>The log command\<close>

text \<open>The loop that fills the ring of \<open>n\<close> lines: \<open>(buf, cur, tot)\<close>.\<close>

primrec ring_loop :: "string list \<Rightarrow> string list \<times> nat \<times> nat \<Rightarrow> string list \<times> nat \<times> nat" where
  "ring_loop [] st = st"
| "ring_loop (s # ss) st =
     (case st of (buf, cur, tot) \<Rightarrow>
        ring_loop ss (buf[cur := s], if length buf \<le> cur + 1 then 0 else cur + 1, tot + 1))"

text \<open>The loop that prints the full ring from its oldest line on.\<close>

primrec ring_print :: "nat \<Rightarrow> string list \<Rightarrow> nat \<Rightarrow> string list" where
  "ring_print 0 buf cur = []"
| "ring_print (Suc k) buf cur =
     buf ! cur # ring_print k buf (if length buf \<le> cur + 1 then 0 else cur + 1)"

definition recent_lines :: "nat \<Rightarrow> string list \<Rightarrow> string list" where
  "recent_lines n lines =
     (case ring_loop lines (replicate n [], 0, 0) of
        (buf, cur, tot) \<Rightarrow>
          if tot \<le> n then map (\<lambda>i. buf ! i) [0..<tot] else ring_print n buf cur)"

text \<open>
  The action: what it writes to the standard output, and how it ends. \<open>opened\<close> is the
  outcome of opening the log file, the content it then reads. \<open>make\<close> panics when the
  strings, of 16 bytes each, exceed the address space of 48 bits that Go uses; a smaller
  request that the machine cannot meet is not considered.
\<close>

definition max_strings :: int where
  "max_strings = 2 ^ 48 div 16"

definition logAction ::
  "bool \<Rightarrow> bool \<Rightarrow> int \<Rightarrow> progress_writer \<Rightarrow> (go_err + string) \<Rightarrow> string \<times> unit go_result" where
  "logAction flag_more flag_all n w opened =
     (if flag_more then (pw_buffered w, Ok ())
      else (case opened of
              Inl e \<Rightarrow> ([], Fail e)
            | Inr content \<Rightarrow>
                if flag_all then (content, Ok ())
                else if n \<le> 0 then ([], Ok ())
                else if max_strings < n then ([], Panic ''makeslice: len out of range'')
                else (concat (map (\<lambda>s. s @ [nl]) (recent_lines (nat n) (fst (scan_lines content)))), Ok ())))"

text \<open>The ring holds the last \<open>n\<close> lines read, line \<open>i\<close> at place \<open>i mod n\<close>.\<close>

definition ring_holds :: "nat \<Rightarrow> string list \<Rightarrow> string list \<Rightarrow> nat \<Rightarrow> bool" where
  "ring_holds n xs buf cur \<longleftrightarrow> length buf = n \<and> cur = length xs mod n \<and>
     (\<forall>i < length xs. length xs \<le> i + n \<longrightarrow> buf ! (i mod n) = xs ! i)"

lemma mod_distinct_window: "(i::nat) < k \<Longrightarrow> k < i + n \<Longrightarrow> i mod n \<noteq> k mod n"
  by (metis add_diff_cancel_left' diff_less_mono less_imp_le_nat mod_eq_dvd_iff_nat nat_dvd_not_less
      zero_less_diff)

lemma Suc_mod_step: "0 < n \<Longrightarrow> (if n \<le> k mod n + 1 then 0 else k mod n + 1) = Suc k mod (n::nat)"
  using mod_less_divisor [of n k] by (auto simp: mod_Suc le_antisym Suc_leI simp del: mod_less_divisor)

lemma ring_holds_step:
  assumes "0 < n" "ring_holds n xs buf cur"
  shows "ring_holds n (xs @ [x]) (buf[cur := x]) (if n \<le> cur + 1 then 0 else cur + 1)"
proof -
  have len: "length buf = n" and cur: "cur = length xs mod n" "cur < n"
    and old: "\<And>i. i < length xs \<Longrightarrow> length xs \<le> i + n \<Longrightarrow> buf ! (i mod n) = xs ! i"
    using assms by (auto simp: ring_holds_def)
  have "buf[cur := x] ! (i mod n) = (xs @ [x]) ! i"
    if "i < length (xs @ [x])" "length (xs @ [x]) \<le> i + n" for i
  proof (cases "i = length xs")
    case True
    with cur len show ?thesis by simp
  next
    case False
    with that have i: "i < length xs" "length xs < i + n"
      by auto
    then have "i mod n \<noteq> cur"
      unfolding cur(1) by (rule mod_distinct_window)
    with i old [of i] show ?thesis
      by (simp add: nth_append)
  qed
  then show ?thesis
    using len cur(1) Suc_mod_step [OF assms(1), of "length xs"] by (simp add: ring_holds_def split: if_splits)
qed

lemma ring_loop_holds:
  "0 < n \<Longrightarrow> ring_holds n xs buf cur \<Longrightarrow>
   \<exists>buf' cur'. ring_loop ys (buf, cur, length xs) = (buf', cur', length (xs @ ys)) \<and> ring_holds n (xs @ ys) buf' cur'"
proof (induction ys arbitrary: xs buf cur)
  case (Cons y ys)
  have "length buf = n"
    using Cons.prems(2) by (simp add: ring_holds_def)
  then show ?case
    using Cons.IH [OF Cons.prems(1) ring_holds_step [OF Cons.prems, of y]] by simp
qed simp

lemma ring_print_eq:
  assumes "0 < n" "length buf = n" "k \<le> m" "m \<le> length xs"
    and "\<And>i. m - k \<le> i \<Longrightarrow> i < m \<Longrightarrow> buf ! (i mod n) = xs ! i"
  shows "ring_print k buf ((m - k) mod n) = take k (drop (m - k) xs)"
  using assms(3-5)
proof (induction k)
  case (Suc k)
  have next_cur: "(if length buf \<le> (m - Suc k) mod n + 1 then 0 else (m - Suc k) mod n + 1) = (m - k) mod n"
    using Suc_mod_step [OF assms(1), of "m - Suc k"] assms(2) Suc.prems(1) by (simp add: Suc_diff_Suc)
  have "drop (m - Suc k) xs = xs ! (m - Suc k) # drop (m - k) xs"
    using Suc.prems by (subst Cons_nth_drop_Suc [symmetric]) (auto simp: Suc_diff_Suc)
  moreover have "ring_print k buf ((m - k) mod n) = take k (drop (m - k) xs)"
    using Suc by (intro Suc.IH) auto
  ultimately show ?case
    using Suc.prems(3) [of "m - Suc k"] Suc.prems(1) next_cur by simp
qed simp

lemma recent_lines_eq:
  assumes "0 < n"
  shows "recent_lines n lines = drop (length lines - n) lines"
proof -
  have "ring_holds n [] (replicate n []) 0"
    by (simp add: ring_holds_def)
  from ring_loop_holds [OF assms this, of lines] obtain buf cur
    where loop: "ring_loop lines (replicate n [], 0, 0) = (buf, cur, length lines)"
      and holds: "ring_holds n lines buf cur"
    by auto
  show ?thesis
  proof (cases "length lines \<le> n")
    case True
    with holds have "buf ! i = lines ! i" if "i < length lines" for i
      using that by (auto simp: ring_holds_def)
    then have "map (\<lambda>i. buf ! i) [0..<length lines] = lines"
      by (intro nth_equalityI) auto
    with True loop show ?thesis
      by (simp add: recent_lines_def)
  next
    case False
    then have "cur = (length lines - n) mod n"
      using holds by (simp add: ring_holds_def mod_if le_mod_geq)
    moreover have "ring_print n buf ((length lines - n) mod n) = take n (drop (length lines - n) lines)"
      using holds False by (intro ring_print_eq [OF assms]) (auto simp: ring_holds_def)
    ultimately show ?thesis
      using False loop by (simp add: recent_lines_def)
  qed
qed

section \<open>Properties\<close>

text \<open>
  C35. Build output is not reordered, repeated or made up by a debug session, and nothing gets
  lost but what the system does not take, whatever the history of writes, disabling and
  enabling and however much of each write the system takes: what the console has, followed
  by what is still buffered, is what was written with as many bytes left out as the console
  refused, either in a write, whose caller is told, or in the write of the buffer when it is
  enabled, of which nobody is told; the log file has what was written but for the bytes it
  refused. So both have everything when every write is taken in full. The buffer is empty
  whenever the writer is enabled.
\<close>

theorem progress_output_complete:
  "let w = foldl pw_step newProgressWriter es; shown = pw_file w @ pw_buf w;
       refused = unprinted newProgressWriter es
   in subseq shown (written es) \<and> length shown + refused = length (written es) \<and>
      (refused = 0 \<longrightarrow> shown = written es) \<and>
      (\<exists>log. pw_log w = Some log \<and> subseq log (written es) \<and> length log + unlogged es = length (written es) \<and>
             (unlogged es = 0 \<longrightarrow> log = written es)) \<and>
      \<not> (pw_enabled w \<and> pw_buf w \<noteq> [])"
proof -
  have "pw_inv [] 0 0 newProgressWriter"
    by (simp add: pw_inv_def newProgressWriter_def kept_of_def)
  note run = pw_run_inv [OF this, of es, simplified]
  let ?w = "foldl pw_step newProgressWriter es"
  obtain log where log: "pw_log ?w = Some log" "kept_of (written es) (unlogged es) log"
    using run by (auto simp: pw_inv_def)
  have shown: "kept_of (written es) (unprinted newProgressWriter es) (pw_file ?w @ pw_buf ?w)"
    and empty: "\<not> (pw_enabled ?w \<and> pw_buf ?w \<noteq> [])"
    using run by (auto simp: pw_inv_def)
  show ?thesis
    unfolding Let_def
  proof (intro conjI exI [of _ log] impI)
    show "pw_file ?w @ pw_buf ?w = written es" if "unprinted newProgressWriter es = 0"
      using shown kept_of_all by (simp add: that)
    show "log = written es" if "unlogged es = 0"
      using log(2) kept_of_all by (simp add: that)
  qed (use log shown empty in \<open>simp_all add: kept_of_def\<close>)
qed

text \<open>
  A session that takes everything, and one whose console takes one byte of the buffer: the
  other is lost.
\<close>

theorem progress_output_complete_witness:
  "let es = [PDisable, PWrite ''ab'' ((2, None), (2, None)), PEnable (2, None)];
       es' = [PDisable, PWrite ''ab'' ((2, None), (2, None)), PEnable (1, Some ErrCanceled), PWrite ''c'' ((1, None), (1, None))]
   in pw_file (foldl pw_step newProgressWriter es) = ''ab'' \<and>
      length (pw_file (foldl pw_step newProgressWriter es')) = 2 \<and>
      pw_log (foldl pw_step newProgressWriter es') = Some ''abc''"
proof -
  let ?es = "[PDisable, PWrite ''ab'' ((2, None), (2, None)), PEnable (2, None)]"
  let ?es' = "[PDisable, PWrite ''ab'' ((2, None), (2, None)), PEnable (1, Some ErrCanceled),
      PWrite ''c'' ((1, None), (1, None))]"
  have "unprinted newProgressWriter ?es = 0" "unprinted newProgressWriter ?es' = 1" "unlogged ?es' = 0"
    and "pw_buf (foldl pw_step newProgressWriter ?es) = []" "pw_buf (foldl pw_step newProgressWriter ?es') = []"
    by (simp_all add: newProgressWriter_def pw_disable_def pw_put_def pw_Write_def pw_enable_def Let_def)
  with progress_output_complete [of ?es] progress_output_complete [of ?es'] show ?thesis
    unfolding Let_def by auto
qed

text \<open>
  While the shell is open (between the disabling and the enabling around the
  breakpoint handler) the build prints nothing to the console; when the shell closes, what
  was written in between is written, in order, after anything still pending, as far as the
  console takes it, and nothing of it stays behind.
\<close>

theorem shell_output_undisturbed:
  "let w' = fold (\<lambda>(outs, p). pw_put outs p) ps (pw_disable w)
   in pw_file w' = pw_file w \<and>
      pw_file (pw_enable out w') = pw_file w @ take (fst out) (pw_buf w @ concat (map snd ps)) \<and>
      pw_buf (pw_enable out w') = []"
  by (rule pw.closed_section)


text \<open>
  While \<open>exec\<close> has the signals (from its disabling of the handler to the matching
  enabling), interrupts do not cancel the session; the next one after it does.
\<close>

theorem exec_shields_interrupts:
  assumes "SigEnable \<notin> set es"
  shows "let h' = foldl sig_step h (SigDisable # es @ [SigEnable])
         in sig_cancelled h' = sig_cancelled h \<and> sig_cancelled (sig_step h' Interrupt)"
  using assms by (simp add: Let_def sig_run_disabled)

theorem exec_shields_interrupts_witness:
  "\<not> sig_cancelled (foldl sig_step sig_start [SigDisable, Interrupt, Interrupt, SigEnable])"
  using exec_shields_interrupts [of "[Interrupt, Interrupt]" sig_start]
  by (simp add: Let_def sig_start_def)

end
