(* ===== verification/ExecContainer.thy ===== *)
theory ExecContainer
  imports Controller Paths Progress
begin

text \<open>
  Running a container on the state of a step: \<open>ExecContainer\<close> of \<open>pkg/buildkit/exec.go\<close>
  and the \<open>exec\<close> command of \<open>exec.go\<close>. The gateway, the container and the terminal are
  outside the repository: the outcomes of their calls are the argument \<open>env\<close>, and what the
  code does to them is the list of \<open>effect\<close>s.
\<close>

section \<open>The request\<close>

record gw_mount =
  gm_selector :: string
  gm_dest :: string
  gm_result_id :: string
  gm_readonly :: bool
  gm_type :: mount_type
  gm_cache_opt :: nat
  gm_secret_opt :: nat
  gm_ssh_opt :: nat
  gm_ref :: "nat option"

record container_request =
  cr_mounts :: "gw_mount list"
  cr_net_mode :: net_mode
  cr_platform :: nat
  cr_constraints :: nat

record start_request =
  sr_args :: "string list"
  sr_env :: "string list"
  sr_user :: string
  sr_cwd :: string
  sr_tty :: bool
  sr_stdin :: bool
  sr_security :: security_mode

record container_config =
  cc_info :: registered_status
  cc_args :: "string list"
  cc_tty :: bool
  cc_stdin :: bool
  cc_image :: "nat option"
  cc_mountroot :: string
  cc_input_mount :: bool
  cc_env :: "string list"
  cc_cwd :: string
  cc_watch_signal :: bool
  cc_no_set_raw :: bool

definition default_path_env :: string where
  "default_path_env = ''PATH=/usr/local/sbin:/usr/local/bin:/usr/sbin:/usr/bin:/sbin:/bin''"

datatype cleanup = Release | ResetConsole | CancelIO

datatype effect =
    NewContainer container_request
  | StartProcess start_request
  | SetRaw
  | WatchSignal
  | Cleanup cleanup

text \<open>
  \<open>ee_console\<close>: some standard stream of the process is a terminal; if none is,
  \<open>console.Current\<close> panics.
\<close>

record exec_env =
  ee_new_container :: "go_err option"
  ee_start :: "go_err option"
  ee_console :: bool
  ee_set_raw :: "go_err option"

text \<open>The loop over the mounts of a RUN step; \<open>mountIDs[i]\<close> panics out of range.\<close>

primrec mounts_loop :: "pb_mount list \<Rightarrow> nat \<Rightarrow> string list \<Rightarrow> gw_mount list \<Rightarrow> gw_mount list go_result" where
  "mounts_loop [] i ids acc = Ok acc"
| "mounts_loop (m # ms) i ids acc =
     (if i < length ids
      then mounts_loop ms (Suc i) ids
             (acc @ [\<lparr>gm_selector = mnt_selector m, gm_dest = mnt_dest m, gm_result_id = ids ! i,
                      gm_readonly = mnt_readonly m, gm_type = mnt_type m, gm_cache_opt = mnt_cache_opt m,
                      gm_secret_opt = mnt_secret_opt m, gm_ssh_opt = mnt_ssh_opt m, gm_ref = None\<rparr>])
      else Panic ''index out of range'')"

definition root_mount :: "string \<Rightarrow> nat option \<Rightarrow> gw_mount" where
  "root_mount ident ref =
     \<lparr>gm_selector = [], gm_dest = ''/'', gm_result_id = ident, gm_readonly = False,
      gm_type = MountType_BIND, gm_cache_opt = 0, gm_secret_opt = 0, gm_ssh_opt = 0, gm_ref = ref\<rparr>"

definition container_mount_ids :: "container_config \<Rightarrow> string list" where
  "container_mount_ids cfg =
     (if cc_input_mount cfg then rs_input_ids (cc_info cfg) else rs_mount_ids (cc_info cfg))"

text \<open>
  The mounts, environment, user, directory and modes of the container before the debug
  image is considered.
\<close>

definition container_base ::
  "container_config \<Rightarrow> (gw_mount list \<times> net_mode \<times> string list \<times> string \<times> string \<times> security_mode) go_result" where
  "container_base cfg =
     (let ids = container_mount_ids cfg
      in case op_kind_of (rs_op (cc_info cfg)) of
           Op_Exec ex \<Rightarrow>
             (case mounts_loop (ex_mounts ex) 0 ids [] of
                Ok mounts \<Rightarrow>
                  Ok (mounts, ex_network ex, ex_env ex @ cc_env cfg, ex_user ex,
                      if cc_cwd cfg \<noteq> [] then cc_cwd cfg else ex_cwd ex, ex_security ex)
              | Fail e \<Rightarrow> Fail e
              | Panic m \<Rightarrow> Panic m)
         | Op_Other \<Rightarrow>
             if length ids \<noteq> 1 then Fail (Errorf ''one rootfs mount must be specified'' [])
             else Ok ([root_mount (ids ! 0) None], NetMode_NONE, default_path_env # cc_env cfg, [],
                      if cc_cwd cfg \<noteq> [] then cc_cwd cfg else ''/'', SecurityMode_SANDBOX))"

definition with_image :: "container_config \<Rightarrow> gw_mount list \<Rightarrow> gw_mount list" where
  "with_image cfg mounts =
     (case cc_image cfg of
        None \<Rightarrow> mounts
      | Some ref \<Rightarrow>
          root_mount [] (Some ref) #
          map (\<lambda>m. m\<lparr>gm_dest := Join (cc_mountroot cfg) (gm_dest m)\<rparr>) mounts)"

text \<open>
  The whole of \<open>ExecContainer\<close>: the result is the cleanups that the returned function
  runs, in its order (the reverse of their registration); on an error after the first
  registration the deferred function has run them.
\<close>

definition run_cleanups :: "cleanup list \<Rightarrow> effect list" where
  "run_cleanups cs = map Cleanup (rev cs)"

definition ExecContainer :: "exec_env \<Rightarrow> container_config \<Rightarrow> cleanup list go_result \<times> effect list" where
  "ExecContainer env cfg =
     (case container_base cfg of
        Fail e \<Rightarrow> (Fail e, [])
      | Panic m \<Rightarrow> (Panic m, [])
      | Ok (mounts, net, cenv, user, cwd, sec) \<Rightarrow>
          (let op = rs_op (cc_info cfg);
               creq = \<lparr>cr_mounts = with_image cfg mounts, cr_net_mode = net,
                       cr_platform = op_platform op, cr_constraints = op_constraints op\<rparr>;
               sreq = \<lparr>sr_args = cc_args cfg, sr_env = cenv, sr_user = user, sr_cwd = cwd,
                       sr_tty = cc_tty cfg, sr_stdin = cc_stdin cfg, sr_security = sec\<rparr>
           in case ee_new_container env of
                Some e \<Rightarrow> (Fail (Errvf ''failed to create debug container: %v'' e), [NewContainer creq])
              | None \<Rightarrow>
                  (case ee_start env of
                     Some e \<Rightarrow>
                       (Fail (Wrapf ''failed to start container: %w'' e),
                        [NewContainer creq, StartProcess sreq] @ run_cleanups [Release])
                   | None \<Rightarrow>
                       (let raw = (cc_tty cfg \<and> \<not> cc_no_set_raw cfg);
                            done = [NewContainer creq, StartProcess sreq] @ (if raw then [SetRaw] else [])
                        in if raw \<and> \<not> ee_console env
                           then (Panic ''no terminal'', [NewContainer creq, StartProcess sreq])
                           else case (if raw then ee_set_raw env else None) of
                             Some e \<Rightarrow>
                               (Fail (Errvf ''failed to configure terminal: %v'' e), done @ run_cleanups [Release])
                           | None \<Rightarrow>
                               (let cs = [Release] @ (if raw then [ResetConsole] else []) @
                                         (if cc_watch_signal cfg then [CancelIO] else [])
                                in (Ok (rev cs), done @ (if cc_watch_signal cfg then [WatchSignal] else [])))))))"

section \<open>The exec command\<close>

record exec_flags =
  xf_args :: "string list"
  xf_i :: bool
  xf_tty :: bool
  xf_image :: bool
  xf_mountroot :: string
  xf_init_state :: bool
  xf_env :: "string list"
  xf_workdir :: string

text \<open>What the wait for the process comes to, whichever of the three channels is ready first.\<close>

datatype proc_wait = ProcDone | ProcError go_err | CtxDone

datatype exec_effect =
    UseStdin | DoneStdin | DisableSignals | EnableSignals | Container effect

definition exec_args :: "string list \<Rightarrow> string list" where
  "exec_args args = (case args of [] \<Rightarrow> [''/bin/sh''] | a # _ \<Rightarrow> if a = [] then [''/bin/sh''] else args)"

definition exec_config :: "nat option \<Rightarrow> registered_status \<Rightarrow> exec_flags \<Rightarrow> container_config" where
  "exec_config debugger_image info f =
     \<lparr>cc_info = info, cc_args = exec_args (xf_args f), cc_tty = xf_tty f, cc_stdin = xf_i f,
      cc_image = (if xf_image f then debugger_image else None), cc_mountroot = xf_mountroot f,
      cc_input_mount = xf_init_state f, cc_env = xf_env f, cc_cwd = xf_workdir f,
      cc_watch_signal = True, cc_no_set_raw = False\<rparr>"

text \<open>
  The action of \<open>exec\<close>. The deferred calls run in the reverse of their order on every way
  out: the container's cleanup if there is a container, the signal handler, the input.
\<close>

definition execAction ::
  "exec_env \<Rightarrow> proc_wait \<Rightarrow> nat option \<Rightarrow> registered_status \<Rightarrow> exec_flags \<Rightarrow> unit go_result \<times> exec_effect list" where
  "execAction env pw debugger_image info f =
     (if xf_i f \<and> \<not> xf_tty f \<or> \<not> xf_i f \<and> xf_tty f
      then (Fail (Errorf ''flag \"-i\" and \"-t\" must be set together'' []), [])
      else
        (case ExecContainer env (exec_config debugger_image info f) of
           (res, effs) \<Rightarrow>
             (let start = [UseStdin, DisableSignals] @ map Container effs;
                  finish = [EnableSignals, DoneStdin]
              in case res of
                   Fail e \<Rightarrow> (Fail e, start @ finish)
                 | Panic m \<Rightarrow> (Panic m, start @ finish)
                 | Ok cleanups \<Rightarrow>
                     ((case pw of
                         ProcDone \<Rightarrow> Ok ()
                       | CtxDone \<Rightarrow> Fail ErrCanceled
                       | ProcError e \<Rightarrow> Fail (Wrapf ''process execution failed: %w'' e)),
                      start @ map (\<lambda>c. Container (Cleanup c)) cleanups @ finish))))"

section \<open>Lemmas\<close>

lemma mounts_loop_eq:
  "mounts_loop ms i ids acc =
     (if i + length ms \<le> length ids \<or> ms = []
      then Ok (acc @ map (\<lambda>(j, m). \<lparr>gm_selector = mnt_selector m, gm_dest = mnt_dest m, gm_result_id = ids ! j,
                      gm_readonly = mnt_readonly m, gm_type = mnt_type m, gm_cache_opt = mnt_cache_opt m,
                      gm_secret_opt = mnt_secret_opt m, gm_ssh_opt = mnt_ssh_opt m, gm_ref = None\<rparr>)
                     (enumerate i ms))
      else Panic ''index out of range'')"
  by (induction ms arbitrary: i acc) auto

lemma container_base_panic_iff:
  "\<not> no_panic (container_base cfg) \<longleftrightarrow>
     (\<exists>ex. op_kind_of (rs_op (cc_info cfg)) = Op_Exec ex \<and>
           length (container_mount_ids cfg) < length (ex_mounts ex))"
  by (auto simp: container_base_def mounts_loop_eq Let_def not_le split: op_kind.splits)

text \<open>The process has started, and there is no terminal to set to raw mode.\<close>

definition lacks_terminal :: "exec_env \<Rightarrow> container_config \<Rightarrow> bool" where
  "lacks_terminal env cfg \<longleftrightarrow> ee_new_container env = None \<and> ee_start env = None \<and>
     (\<exists>b. container_base cfg = Ok b) \<and> cc_tty cfg \<and> \<not> cc_no_set_raw cfg \<and> \<not> ee_console env"

lemma lacks_terminal_cases [simp]:
  "ee_console env \<Longrightarrow> \<not> lacks_terminal env cfg" "cc_no_set_raw cfg \<Longrightarrow> \<not> lacks_terminal env cfg"
  by (simp_all add: lacks_terminal_def)

lemma ExecContainer_panic_iff:
  "no_panic (fst (ExecContainer env cfg)) \<longleftrightarrow> no_panic (container_base cfg) \<and> \<not> lacks_terminal env cfg"
  by (auto simp: ExecContainer_def lacks_terminal_def Let_def split: go_result.splits option.splits prod.splits)

lemma mounts_loop_nth:
  assumes "length ms \<le> length ids"
  shows "\<exists>mounts. mounts_loop ms 0 ids [] = Ok mounts \<and> length mounts = length ms \<and>
    (\<forall>i < length ms. mounts ! i =
       \<lparr>gm_selector = mnt_selector (ms ! i), gm_dest = mnt_dest (ms ! i), gm_result_id = ids ! i,
        gm_readonly = mnt_readonly (ms ! i), gm_type = mnt_type (ms ! i), gm_cache_opt = mnt_cache_opt (ms ! i),
        gm_secret_opt = mnt_secret_opt (ms ! i), gm_ssh_opt = mnt_ssh_opt (ms ! i), gm_ref = None\<rparr>)"
  using assms by (auto simp: mounts_loop_eq nth_enumerate_eq)

text \<open>A RUN step with too few results ends the call before anything is asked of the gateway.\<close>

lemma ExecContainer_out_of_range:
  assumes "op_kind_of (rs_op (cc_info cfg)) = Op_Exec ex" "length (container_mount_ids cfg) < length (ex_mounts ex)"
  shows "ExecContainer env cfg = (Panic ''index out of range'', [])"
  using assms by (auto simp: ExecContainer_def container_base_def mounts_loop_eq Let_def)

definition created :: "exec_env \<Rightarrow> container_config \<Rightarrow> bool" where
  "created env cfg \<longleftrightarrow> ee_new_container env = None \<and>
     (\<exists>req. NewContainer req \<in> set (snd (ExecContainer env cfg)))"

text \<open>All effects of a container's life: those of the call, and the cleanups of a success.\<close>

definition lifetime :: "cleanup list go_result \<times> effect list \<Rightarrow> effect list" where
  "lifetime r = (case fst r of Ok cs \<Rightarrow> snd r @ map Cleanup cs | _ \<Rightarrow> snd r)"

lemmas exec_defs = ExecContainer_def lifetime_def run_cleanups_def Let_def

lemma created_iff:
  "created env cfg \<longleftrightarrow> ee_new_container env = None \<and> (\<exists>b. container_base cfg = Ok b)"
  by (auto simp: created_def exec_defs split: go_result.splits option.splits prod.splits)

text \<open>The container is there, and the program goes on.\<close>

definition kept :: "exec_env \<Rightarrow> container_config \<Rightarrow> bool" where
  "kept env cfg \<longleftrightarrow> created env cfg \<and> no_panic (fst (ExecContainer env cfg))"

lemma kept_iff: "kept env cfg \<longleftrightarrow> created env cfg \<and> \<not> lacks_terminal env cfg"
  by (auto simp: kept_def created_iff ExecContainer_panic_iff)

lemma lifetime_not_kept:
  "\<not> kept env cfg \<Longrightarrow> Cleanup Release \<notin> set (lifetime (ExecContainer env cfg))"
  unfolding kept_iff created_iff lacks_terminal_def
  by (auto simp: exec_defs split: go_result.splits option.splits)

lemma lifetime_kept:
  "kept env cfg \<Longrightarrow>
   lifetime (ExecContainer env cfg) \<noteq> [] \<and> last (lifetime (ExecContainer env cfg)) = Cleanup Release \<and>
   Cleanup Release \<notin> set (butlast (lifetime (ExecContainer env cfg)))"
  unfolding kept_iff created_iff lacks_terminal_def
  by (cases "ee_start env"; cases "ee_set_raw env"; cases "cc_tty cfg \<and> \<not> cc_no_set_raw cfg";
      cases "cc_watch_signal cfg") (auto simp: exec_defs)

lemma lifetime_release:
  "\<exists>before. lifetime (ExecContainer env cfg) = before @ (if kept env cfg then [Cleanup Release] else []) \<and>
            Cleanup Release \<notin> set before"
proof (cases "kept env cfg")
  case True
  with lifetime_kept [OF True] show ?thesis
    by (metis append_butlast_last_id)
next
  case False
  with lifetime_not_kept [OF False] show ?thesis
    by simp
qed

lemma lifetime_reset:
  "count_list (lifetime (ExecContainer env cfg)) (Cleanup ResetConsole) =
     (if SetRaw \<in> set (snd (ExecContainer env cfg)) \<and> ee_set_raw env = None then 1 else 0)"
  by (cases "container_base cfg"; cases "ee_new_container env"; cases "ee_start env"; cases "ee_set_raw env";
      cases "ee_console env") (auto simp: exec_defs)

lemma lifetime_count:
  "count_list (lifetime (ExecContainer env cfg)) (Cleanup Release) = (if kept env cfg then 1 else 0)"
  using lifetime_release [of env cfg] by (auto simp: count_list_0_iff)

section \<open>Properties\<close>

text \<open>
  C18. A container is released exactly once if it was created and never otherwise, on every
  way out but a panic: a failed start, a terminal that cannot be set up, and the cleanup
  function the caller runs after a success. The terminal is reset exactly when it was set
  to raw mode without an error, and the release is the last thing that happens.
\<close>

theorem container_released_once:
  "let r = ExecContainer env cfg
   in (\<exists>before. lifetime r = before @ (if created env cfg \<and> no_panic (fst r) then [Cleanup Release] else []) \<and>
                Cleanup Release \<notin> set before) \<and>
      count_list (lifetime r) (Cleanup ResetConsole) =
        (if SetRaw \<in> set (snd r) \<and> ee_set_raw env = None then 1 else 0)"
  using lifetime_release [of env cfg, unfolded kept_def] lifetime_reset [of env cfg] by (simp add: Let_def)

text \<open>
  Asking for a container on a step panics exactly when the step is a RUN with more
  mounts than the step has result identifiers (the Go code indexes the identifiers by the
  mounts), or when the process has started and no standard stream is a terminal that could
  be set to raw mode; for every other step a missing root is an error return.
\<close>

theorem exec_container_panics_iff:
  "no_panic (fst (ExecContainer env cfg)) \<longleftrightarrow>
     (case op_kind_of (rs_op (cc_info cfg)) of
        Op_Exec ex \<Rightarrow> length (ex_mounts ex) \<le> length (container_mount_ids cfg)
      | Op_Other \<Rightarrow> True) \<and> \<not> lacks_terminal env cfg"
  using container_base_panic_iff [of cfg]
  by (auto simp: ExecContainer_panic_iff not_less split: op_kind.splits)

text \<open>
  C19. For a RUN step whose results are all registered, the container that is requested has
  the step's mounts in their order, each with its own result, selector, type and options and
  at its own destination; with a debug image they come after the image as a writable root,
  each at its destination joined to the mount root. For a mount root that is an absolute
  path and a destination without \<open>..\<close> this is a path below the mount root.
\<close>

theorem container_mounts_of_step:
  assumes "op_kind_of (rs_op (cc_info cfg)) = Op_Exec ex"
    and "length (ex_mounts ex) \<le> length (container_mount_ids cfg)"
    and "i < length (ex_mounts ex)" and "mt = ex_mounts ex ! i"
  shows "\<exists>req d. hd (snd (ExecContainer env cfg)) = NewContainer req \<and>
    (case cc_image cfg of
       None \<Rightarrow> length (cr_mounts req) = length (ex_mounts ex) \<and> d = mnt_dest mt
     | Some ref \<Rightarrow> length (cr_mounts req) = Suc (length (ex_mounts ex)) \<and>
         hd (cr_mounts req) =
           \<lparr>gm_selector = [], gm_dest = ''/'', gm_result_id = [], gm_readonly = False, gm_type = MountType_BIND,
            gm_cache_opt = 0, gm_secret_opt = 0, gm_ssh_opt = 0, gm_ref = Some ref\<rparr> \<and>
         d = Join (cc_mountroot cfg) (mnt_dest mt) \<and>
         (is_rooted (cc_mountroot cfg) \<and> ''..'' \<notin> set (split_at_char slash (mnt_dest mt)) \<longrightarrow>
            d = path_string True
              (clean_elems True (split_at_char slash (cc_mountroot cfg)) @
               filter (\<lambda>e. e \<noteq> [] \<and> e \<noteq> ''.'') (split_at_char slash (mnt_dest mt))))) \<and>
    cr_mounts req ! (if cc_image cfg = None then i else Suc i) =
      \<lparr>gm_selector = mnt_selector mt, gm_dest = d, gm_result_id = container_mount_ids cfg ! i,
       gm_readonly = mnt_readonly mt, gm_type = mnt_type mt, gm_cache_opt = mnt_cache_opt mt,
       gm_secret_opt = mnt_secret_opt mt, gm_ssh_opt = mnt_ssh_opt mt, gm_ref = None\<rparr>"
proof -
  obtain mounts where mounts: "mounts_loop (ex_mounts ex) 0 (container_mount_ids cfg) [] = Ok mounts"
      "length mounts = length (ex_mounts ex)"
      "mounts ! i = \<lparr>gm_selector = mnt_selector mt, gm_dest = mnt_dest mt, gm_result_id = container_mount_ids cfg ! i,
        gm_readonly = mnt_readonly mt, gm_type = mnt_type mt, gm_cache_opt = mnt_cache_opt mt,
        gm_secret_opt = mnt_secret_opt mt, gm_ssh_opt = mnt_ssh_opt mt, gm_ref = None\<rparr>"
    using mounts_loop_nth [OF assms(2)] assms(3,4) by blast
  obtain rest where base: "container_base cfg = Ok (mounts, rest)"
    using mounts(1) assms(1) by (auto simp: container_base_def Let_def)
  have hd: "\<exists>req. hd (snd (ExecContainer env cfg)) = NewContainer req \<and> cr_mounts req = with_image cfg mounts"
    using base by (auto simp: exec_defs split: option.splits prod.splits)
  show ?thesis
  proof (cases "cc_image cfg")
    case None
    with hd mounts show ?thesis
      by (auto simp: with_image_def)
  next
    case (Some ref)
    with hd mounts assms(3) Join_below [of "cc_mountroot cfg" "mnt_dest mt"] show ?thesis
      by (auto simp: with_image_def root_mount_def)
  qed
qed

definition sample_run :: exec_op where
  "sample_run = \<lparr>ex_mounts = [\<lparr>mnt_input = 0, mnt_output = 0, mnt_selector = [], mnt_dest = ''/'', mnt_readonly = False,
     mnt_type = MountType_BIND, mnt_cache_opt = 0, mnt_secret_opt = 0, mnt_ssh_opt = 0\<rparr>],
     ex_network = NetMode_NONE, ex_security = SecurityMode_SANDBOX, ex_cwd = ''/'', ex_env = [], ex_user = []\<rparr>"

definition sample_config :: "string list \<Rightarrow> container_config" where
  "sample_config ids = exec_config (Some 5)
     \<lparr>rs_name = ''RUN'', rs_debug_id = ''i'', rs_input_ids = [], rs_mount_ids = ids, rs_vertex = ''v'',
      rs_op = \<lparr>op_kind_of = Op_Exec sample_run, op_platform = 0, op_constraints = 0\<rparr>, rs_err = None\<rparr>
     \<lparr>xf_args = [], xf_i = True, xf_tty = True, xf_image = True, xf_mountroot = ''/debugroot'',
      xf_init_state = False, xf_env = [], xf_workdir = []\<rparr>"

theorem container_mounts_of_step_witness:
  "\<exists>req. hd (snd (ExecContainer \<lparr>ee_new_container = None, ee_start = None, ee_console = True, ee_set_raw = None\<rparr>
            (sample_config [''r'']))) = NewContainer req \<and>
      gm_dest (cr_mounts req ! 1) = ''/debugroot'' \<and> gm_result_id (cr_mounts req ! 1) = ''r'' \<and>
      gm_type (cr_mounts req ! 1) = MountType_BIND"
proof -
  let ?cfg = "sample_config [''r'']"
  have op: "op_kind_of (rs_op (cc_info ?cfg)) = Op_Exec sample_run"
    and ids: "container_mount_ids ?cfg = [''r'']" and root: "cc_mountroot ?cfg = ''/debugroot''"
    and image: "cc_image ?cfg = Some 5"
    by (simp_all add: sample_config_def exec_config_def container_mount_ids_def)
  have len: "length (ex_mounts sample_run) \<le> length (container_mount_ids ?cfg)" "0 < length (ex_mounts sample_run)"
    by (simp_all add: ids sample_run_def)
  have rooted: "is_rooted (cc_mountroot ?cfg)"
    by (simp add: root is_rooted_def)
  have dots: "''..'' \<notin> set (split_at_char slash (mnt_dest (ex_mounts sample_run ! 0)))"
    and bind: "mnt_type (ex_mounts sample_run ! 0) = MountType_BIND"
    by (simp_all add: sample_run_def)
  have "path_string True (clean_elems True (split_at_char slash ''/debugroot'') @
      filter (\<lambda>e. e \<noteq> [] \<and> e \<noteq> ''.'') (split_at_char slash (mnt_dest (ex_mounts sample_run ! 0)))) = ''/debugroot''"
    by (simp add: sample_run_def clean_elems_def clean_elem_def path_string_def)
  then show ?thesis
    using container_mounts_of_step [OF op len refl,
        of "\<lparr>ee_new_container = None, ee_start = None, ee_console = True, ee_set_raw = None\<rparr>"] dots bind rooted
    by (auto simp: ids root image)
qed

text \<open>
  The \<open>exec\<close> command hands the terminal back on every way out: unless its flags are
  refused (and then it does nothing), it takes the input and the signals first and gives
  them back last, once each, and in between it releases the container exactly when one was
  created (unless there is no terminal, which ends the program).
\<close>

theorem exec_command_balanced:
  "case execAction env pw img info f of
     (res, effs) \<Rightarrow>
       if xf_i f \<noteq> xf_tty f then effs = [] \<and> no_panic res
       else \<exists>body. effs = [UseStdin, DisableSignals] @ map Container body @ [EnableSignals, DoneStdin] \<and>
              count_list body (Cleanup Release) = (if created env (exec_config img info f) \<and> no_panic res then 1 else 0)"
proof -
  let ?cfg = "exec_config img info f"
  obtain r effs where r: "ExecContainer env ?cfg = (r, effs)"
    by (cases "ExecContainer env ?cfg")
  have rel: "count_list (lifetime (r, effs)) (Cleanup Release) = (if created env ?cfg \<and> no_panic r then 1 else 0)"
    using lifetime_count [of env ?cfg] by (simp add: r kept_def)
  show ?thesis
  proof (cases "xf_i f = xf_tty f")
    case True
    have "snd (execAction env pw img info f) =
        [UseStdin, DisableSignals] @ map Container (lifetime (r, effs)) @ [EnableSignals, DoneStdin] \<and>
        (no_panic (fst (execAction env pw img info f)) \<longleftrightarrow> no_panic r)"
      using True by (simp add: execAction_def r lifetime_def Let_def split: go_result.splits proc_wait.splits)
    with rel True show ?thesis
      by (auto split: prod.splits)
  next
    case False
    then show ?thesis
      by (auto simp: execAction_def)
  qed
qed

end
