(* ===== verification/Shell.thy ===== *)
theory Shell
  imports Listing Progress ExecContainer Cli
begin

text \<open>
  The debug shell: \<open>commands.go\<close> (\<open>breakHandler\<close>, \<open>readLine\<close>, \<open>dispatch\<close>), \<open>break.go\<close>,
  \<open>exit.go\<close> and \<open>reload.go\<close>, with the actions of \<open>list.go\<close>, \<open>log.go\<close> and \<open>exec.go\<close>.
  Two libraries are parameters: \<open>shlex.Split\<close>, which splits a line into words, and
  \<open>App.Run\<close> of \<open>urfave/cli\<close>, which finds the command that a list of words names in a
  table of commands and parses its flags; \<open>lb_prints\<close> is the help or usage text that it
  writes itself when it does not run a command.
\<close>

section \<open>Libraries and the world\<close>

record libs =
  lb_split :: "string \<Rightarrow> go_err + string list"
  lb_run :: "command_spec list \<Rightarrow> string list \<Rightarrow> cli_outcome"
  lb_prints :: "command_spec list \<Rightarrow> string list \<Rightarrow> string"
  lb_image :: "nat option"

text \<open>
  What the world holds when a command runs: the order of a Go map, the log file, the
  progress writer, and what creating, starting and waiting for a container comes to.
\<close>

record world =
  w_order :: "source_info list"
  w_log_file :: "go_err + string"
  w_progress :: progress_writer
  w_exec :: exec_env
  w_wait :: proc_wait

text \<open>What reading the standard input comes to: a line with the scanner's error after it, \<dots>\<close>

datatype read_outcome = Line string "go_err option" | ReadError go_err | Eof | Cancelled

text \<open>What the shell writes and does, in order.\<close>

datatype shell_out =
    HitLine string description
  | IgnoredHits "string list"
  | Listed out_line
  | Prompt
  | SplitFailed go_err
  | ErrorText go_err
  | Table "(string \<times> string) list"
  | LogText string
  | HelpText string
  | ReloadNote
  | ExecDid exec_effect

section \<open>Commands\<close>

record handler_context =
  hx_handler :: handler
  hx_continueRead :: bool
  hx_targetBreakpoint :: string
  hx_err :: "go_err option"
  hx_out :: "shell_out list"

definition exec_flag_specs :: "(string \<times> flag_value) list" where
  "exec_flag_specs =
     [(''image'', BoolV False), (''mountroot'', StringV ''/debugroot''), (''init-state'', BoolV False),
      (''tty,t'', BoolV True), (''i'', BoolV True), (''env,e'', StringsV []), (''workdir,w'', StringV [])]"

definition list_flag_specs :: "(string \<times> flag_value) list" where
  "list_flag_specs =
     [(''all'', BoolV False), (''A'', IntV defaultListRange), (''B'', IntV defaultListRange),
      (''range'', IntV defaultListRange)]"

definition log_flag_specs :: "(string \<times> flag_value) list" where
  "log_flag_specs = [(''n'', IntV 10), (''all,a'', BoolV False), (''more'', BoolV False)]"

definition handlerCommands :: "command_spec list" where
  "handlerCommands =
     [\<lparr>cs_name = ''break'', cs_aliases = [''b''], cs_flags = []\<rparr>,
      \<lparr>cs_name = ''breakpoints'', cs_aliases = [''bp''], cs_flags = []\<rparr>,
      \<lparr>cs_name = ''clear'', cs_aliases = [], cs_flags = []\<rparr>,
      \<lparr>cs_name = ''clearall'', cs_aliases = [], cs_flags = []\<rparr>,
      \<lparr>cs_name = ''next'', cs_aliases = [''n''], cs_flags = []\<rparr>,
      \<lparr>cs_name = ''continue'', cs_aliases = [''c''], cs_flags = []\<rparr>,
      \<lparr>cs_name = ''exec'', cs_aliases = [''e''], cs_flags = exec_flag_specs\<rparr>,
      \<lparr>cs_name = ''list'', cs_aliases = [''ls'', ''l''], cs_flags = list_flag_specs\<rparr>,
      \<lparr>cs_name = ''log'', cs_aliases = [], cs_flags = log_flag_specs\<rparr>,
      \<lparr>cs_name = ''reload'', cs_aliases = [], cs_flags = []\<rparr>,
      \<lparr>cs_name = ''exit'', cs_aliases = [''quit'', ''q''], cs_flags = []\<rparr>]"

definition First :: "string list \<Rightarrow> string" where
  "First args = (case args of [] \<Rightarrow> [] | a # _ \<Rightarrow> a)"

type_synonym action = "handler_context \<Rightarrow> unit go_result \<times> handler_context"

definition on_breakpoints :: "(breakpoints \<Rightarrow> breakpoints) \<Rightarrow> handler_context \<Rightarrow> handler_context" where
  "on_breakpoints f hx = hx\<lparr>hx_handler := (hx_handler hx)\<lparr>h_breakpoints := f (h_breakpoints (hx_handler hx))\<rparr>\<rparr>"

definition add_breakpoint :: "string \<Rightarrow> breakpoint \<Rightarrow> action" where
  "add_breakpoint key b hx =
     (case Add (h_breakpoints (hx_handler hx)) key b of
        (bs, Inl e) \<Rightarrow> (Fail e, on_breakpoints (\<lambda>_. bs) hx)
      | (bs, Inr _) \<Rightarrow> (Ok (), on_breakpoints (\<lambda>_. bs) hx))"

definition breakAction :: "location list \<Rightarrow> parsed \<Rightarrow> action" where
  "breakAction locs p hx =
     (let bp = First (pa_args p)
      in if bp = [] then (Fail (Errorf ''breakpoint must be set'' []), hx)
         else if bp = ''on-fail'' then add_breakpoint ''on-fail'' NewOnFailBreakpoint hx
         else (case parse_int64 bp of
                 Some l \<Rightarrow>
                   (case locs of
                      [] \<Rightarrow> (Panic ''index out of range'', hx)
                    | loc # _ \<Rightarrow> add_breakpoint [] (NewLineBreakpoint (si_filename (loc_source loc)) l) hx)
               | None \<Rightarrow> (Fail (Errorf ''cannot parse breakpoint %q'' [bp]), hx)))"

definition say :: "shell_out list \<Rightarrow> handler_context \<Rightarrow> handler_context" where
  "say o' hx = hx\<lparr>hx_out := hx_out hx @ o'\<rparr>"

definition breakpointsAction :: action where
  "breakpointsAction hx =
     (Ok (), say [Table (ForEach (h_breakpoints (hx_handler hx))
                          (\<lambda>key b rows. (True, rows @ [(key, bp_String b)])) [(''KEY'', ''DESCRIPTION'')])] hx)"

definition clearAction :: "parsed \<Rightarrow> action" where
  "clearAction p hx =
     (let bpKey = First (pa_args p)
      in if bpKey = [] then (Fail (Errorf ''breakpoint key must be set'' []), hx)
         else if Get (h_breakpoints (hx_handler hx)) bpKey = None
         then (Fail (Errorf ''breakpoint %q not found'' [bpKey]), hx)
         else (Ok (), on_breakpoints (\<lambda>bs. Clear bs bpKey) hx))"

definition clearAllAction :: action where
  "clearAllAction hx = (Ok (), on_breakpoints ClearAll hx)"

definition nextAction :: action where
  "nextAction hx = (Ok (), hx\<lparr>hx_handler := BreakEachVertex (hx_handler hx) True, hx_continueRead := False\<rparr>)"

definition continueAction :: "parsed \<Rightarrow> action" where
  "continueAction p hx =
     (let bp = First (pa_args p);
          go = (\<lambda>hx. (Ok (), hx\<lparr>hx_handler := BreakEachVertex (hx_handler hx) False, hx_continueRead := False\<rparr>))
      in if bp = [] then go hx
         else if Get (h_breakpoints (hx_handler hx)) bp = None
         then (Fail (Errorf ''unknown breakpoint %v'' [bp]), hx)
         else go (hx\<lparr>hx_targetBreakpoint := bp\<rparr>))"

definition reloadAction :: action where
  "reloadAction hx = (Ok (), (say [ReloadNote] hx)\<lparr>hx_continueRead := False, hx_err := Some ErrReload\<rparr>)"

definition exitAction :: action where
  "exitAction hx = (Ok (), hx\<lparr>hx_continueRead := False, hx_err := Some ErrExit\<rparr>)"

definition exec_command :: "libs \<Rightarrow> world \<Rightarrow> registered_status \<Rightarrow> parsed \<Rightarrow> action" where
  "exec_command L w info p hx =
     (case execAction (w_exec w) (w_wait w) (lb_image L) info
             \<lparr>xf_args = pa_args p, xf_i = pa_bool p ''i'', xf_tty = pa_bool p ''tty'',
              xf_image = pa_bool p ''image'', xf_mountroot = pa_string p ''mountroot'',
              xf_init_state = pa_bool p ''init-state'', xf_env = pa_strings p ''env'',
              xf_workdir = pa_string p ''workdir''\<rparr> of
        (r, effs) \<Rightarrow> (r, say (map ExecDid effs) hx))"

definition list_command :: "world \<Rightarrow> location list \<Rightarrow> parsed \<Rightarrow> action" where
  "list_command w locs p hx =
     (Ok (), say (map Listed (listAction (w_order w) (hx_handler hx) locs
                    (pa_int p ''range'') (pa_int p ''B'') (pa_int p ''A'') (pa_bool p ''all''))) hx)"

definition log_command :: "world \<Rightarrow> parsed \<Rightarrow> action" where
  "log_command w p hx =
     (case logAction (pa_bool p ''more'') (pa_bool p ''all'') (pa_int p ''n'') (w_progress w) (w_log_file w) of
        (t, r) \<Rightarrow> (r, say [LogText t] hx))"

definition run_action ::
  "libs \<Rightarrow> world \<Rightarrow> registered_status \<Rightarrow> location list \<Rightarrow> string \<Rightarrow> parsed \<Rightarrow> action" where
  "run_action L w info locs name p =
     (if name = ''break'' then breakAction locs p
      else if name = ''breakpoints'' then breakpointsAction
      else if name = ''clear'' then clearAction p
      else if name = ''clearall'' then clearAllAction
      else if name = ''next'' then nextAction
      else if name = ''continue'' then continueAction p
      else if name = ''exec'' then exec_command L w info p
      else if name = ''list'' then list_command w locs p
      else if name = ''log'' then log_command w p
      else if name = ''reload'' then reloadAction
      else if name = ''exit'' then exitAction
      else Pair (Ok ()))"

section \<open>The shell\<close>

text \<open>
  The command handler's own state: the key that \<open>continue KEY\<close> waits for, the input still
  to come, and what was written. The standard input is at its end after the last element.
\<close>

record shell =
  sh_target :: string
  sh_input :: "(read_outcome \<times> world) list"
  sh_out :: "shell_out list"

definition put :: "shell_out list \<Rightarrow> shell \<Rightarrow> shell" where
  "put o' s = s\<lparr>sh_out := sh_out s @ o'\<rparr>"

definition readLine :: "read_outcome \<Rightarrow> go_err + string" where
  "readLine r =
     (case r of
        Line ln None \<Rightarrow> Inr ln
      | Line ln (Some e) \<Rightarrow> Inl e
      | ReadError e \<Rightarrow> Inl e
      | Eof \<Rightarrow> Inl ErrExit
      | Cancelled \<Rightarrow> Inl (Wrapf ''canceled reading line: %w'' ErrCanceled))"

text \<open>What the library writes itself.\<close>

definition help_output :: "libs \<Rightarrow> command_spec list \<Rightarrow> string list \<Rightarrow> shell_out list" where
  "help_output L table args = (let t = lb_prints L table args in if t = [] then [] else [HelpText t])"

text \<open>
  \<open>dispatch\<close>: \<open>Ok continueRead\<close>, or the error that the command set in its context. The
  error that the command returns is only printed.
\<close>

definition dispatch ::
  "libs \<Rightarrow> registered_status \<Rightarrow> location list \<Rightarrow> world \<Rightarrow> string list \<Rightarrow> handler \<times> shell
     \<Rightarrow> bool go_result \<times> handler \<times> shell" where
  "dispatch L info locs w args hs =
     (case hs of (h, s) \<Rightarrow>
        if args = [] \<or> hd args = [] then (Ok True, h, s)
        else
          (let hCtx = \<lparr>hx_handler = h, hx_continueRead = True, hx_targetBreakpoint = [], hx_err = None, hx_out = []\<rparr>
           in case (case lb_run L handlerCommands args of
                      Invoke name p \<Rightarrow> run_action L w info locs name p hCtx
                    | NoAction \<Rightarrow> (Ok (), hCtx\<lparr>hx_out := help_output L handlerCommands args\<rparr>)
                    | CliError e \<Rightarrow> (Fail e, hCtx\<lparr>hx_out := help_output L handlerCommands args\<rparr>)) of
                (r, hx) \<Rightarrow>
                  (let printed = hx_out hx @ (case r of Fail e \<Rightarrow> [ErrorText e] | _ \<Rightarrow> []);
                       s' = put printed s\<lparr>sh_target := (if hx_targetBreakpoint hx \<noteq> [] then hx_targetBreakpoint hx
                                                       else sh_target s)\<rparr>
                   in ((case r of
                          Panic m \<Rightarrow> Panic m
                        | _ \<Rightarrow> (case hx_err hx of Some e \<Rightarrow> Fail e | None \<Rightarrow> Ok (hx_continueRead hx))),
                       hx_handler hx, s'))))"

text \<open>One round of the loop of \<open>breakHandler\<close>: \<open>None\<close> when it goes on reading.\<close>

definition shell_round ::
  "libs \<Rightarrow> registered_status \<Rightarrow> location list \<Rightarrow> read_outcome \<times> world \<Rightarrow> handler \<times> shell
     \<Rightarrow> unit go_result option \<times> handler \<times> shell" where
  "shell_round L info locs inp hs =
     (case (inp, hs) of ((r, w), (h, s)) \<Rightarrow>
        (let s1 = put [Prompt] s
         in case readLine r of
              Inl e \<Rightarrow> (Some (Fail e), h, s1)
            | Inr ln \<Rightarrow>
                (case lb_split L ln of
                   Inl e \<Rightarrow> (None, h, put [SplitFailed e] s1)
                 | Inr args \<Rightarrow>
                     if args = [] then (None, h, s1)
                     else (case dispatch L info locs w args (h, s1) of
                             (Panic m, hs') \<Rightarrow> (Some (Panic m), hs')
                           | (Fail e, hs') \<Rightarrow> (Some (Fail e), hs')
                           | (Ok cont, hs') \<Rightarrow> (if cont then None else Some (Ok ()), hs')))))"

primrec shell_loop ::
  "libs \<Rightarrow> registered_status \<Rightarrow> location list \<Rightarrow> (read_outcome \<times> world) list \<Rightarrow> handler \<times> shell
     \<Rightarrow> unit go_result \<times> handler \<times> shell" where
  "shell_loop L info locs [] hs = (Fail ErrExit, fst hs, put [Prompt] (snd hs\<lparr>sh_input := []\<rparr>))"
| "shell_loop L info locs (i # is) hs =
     (case shell_round L info locs i hs of
        (None, hs') \<Rightarrow> shell_loop L info locs is hs'
      | (Some r, h', s') \<Rightarrow> (r, h', s'\<lparr>sh_input := is\<rparr>))"

text \<open>
  \<open>breakHandler\<close>. The hits are those of the stop in the order in which the Go map is ranged
  over; the list it prints is made in the order \<open>order\<close>.
\<close>

definition ignored :: "string \<Rightarrow> hits \<Rightarrow> bool" where
  "ignored target hits \<longleftrightarrow> target \<noteq> [] \<and> target \<notin> set (map fst hits)"

definition breakHandler ::
  "libs \<Rightarrow> source_info list \<Rightarrow> registered_status \<Rightarrow> location list \<Rightarrow> hits \<Rightarrow> handler \<times> shell
     \<Rightarrow> unit go_result \<times> handler \<times> shell" where
  "breakHandler L order info locs hits hs =
     (case hs of (h, s) \<Rightarrow>
        (let s1 = put (map (\<lambda>(key, i). HitLine key (bi_description i)) hits) s
         in if ignored (sh_target s) hits then (Ok (), h, put [IgnoredHits (map fst hits)] s1)
            else (let s2 = put (map Listed (printLines order (h_breakpoints h) locs defaultListRange defaultListRange False))
                             (s1\<lparr>sh_target := []\<rparr>)
                  in shell_loop L info locs (sh_input s) (h, s2))))"

section \<open>What the commands do\<close>

lemmas action_defs = run_action_def breakAction_def add_breakpoint_def on_breakpoints_def breakpointsAction_def
  clearAction_def clearAllAction_def nextAction_def continueAction_def reloadAction_def exitAction_def
  exec_command_def list_command_def log_command_def say_def BreakEachVertex_def

text \<open>The verdict of a command on the session, in terms of its name.\<close>

definition verdict :: "string \<Rightarrow> handler_context \<Rightarrow> bool" where
  "verdict name hx \<longleftrightarrow>
     (case hx_err hx of
        Some e \<Rightarrow> name = ''reload'' \<and> e = ErrReload \<or> name = ''exit'' \<and> e = ErrExit
      | None \<Rightarrow> hx_continueRead hx \<or>
          name = ''next'' \<and> h_breakEachVertex (hx_handler hx) \<or>
          name = ''continue'' \<and> \<not> h_breakEachVertex (hx_handler hx))"

lemma verdict_actions:
  assumes "hx_continueRead hx" "hx_err hx = None"
  shows "verdict n (snd (breakAction locs p hx))" "verdict n (snd (breakpointsAction hx))"
    "verdict n (snd (clearAction p hx))" "verdict n (snd (clearAllAction hx))"
    "verdict ''next'' (snd (nextAction hx))" "verdict ''continue'' (snd (continueAction p hx))"
    "verdict n (snd (exec_command L w info p hx))" "verdict n (snd (list_command w locs p hx))"
    "verdict n (snd (log_command w p hx))" "verdict ''reload'' (snd (reloadAction hx))"
    "verdict ''exit'' (snd (exitAction hx))" "verdict n hx"
  using assms
  by (simp_all add: action_defs verdict_def Let_def split: option.split prod.split sum.split list.split)

lemma run_action_verdict:
  assumes "hx_continueRead hx" "hx_err hx = None"
  shows "verdict name (snd (run_action L w info locs name p hx))"
  unfolding run_action_def
  by (simp add: verdict_actions [OF assms] del: One_nat_def)

definition same_breakpoints :: "handler \<Rightarrow> handler \<Rightarrow> bool" where
  "same_breakpoints h h' \<longleftrightarrow> h' = h\<lparr>h_breakpoints := h_breakpoints h'\<rparr> \<and>
     Get (h_breakpoints h') = Get (h_breakpoints h)"

lemma same_breakpoints_refl [simp]: "same_breakpoints h h"
  by (simp add: same_breakpoints_def)

text \<open>An unnamed breakpoint is always added; a taken name leaves the breakpoints as they are.\<close>

lemma add_breakpoint_Fail:
  assumes "add_breakpoint key bp hx = (Fail e, hx')" "bps_inv (h_breakpoints (hx_handler hx))"
    and "bp_index (h_breakpoints (hx_handler hx)) < 2 ^ 63 - 1"
  shows "hx' = hx\<lparr>hx_handler := hx_handler hx'\<rparr> \<and> same_breakpoints (hx_handler hx) (hx_handler hx')"
proof -
  let ?b = "h_breakpoints (hx_handler hx)"
  obtain b where add: "Add ?b key bp = (b, Inl e)" and hx': "hx' = on_breakpoints (\<lambda>_. b) hx"
    using assms(1) by (auto simp: add_breakpoint_def split: prod.splits sum.splits)
  have "key \<noteq> []"
    using add bps.add_anon [OF assms(2,3), of bp] by (cases key) auto
  then have "Get b = Get ?b"
    using add Add_named [of key ?b bp] Add_taken [of key ?b bp] by (cases "Get ?b key") auto
  with hx' show ?thesis
    by (simp add: on_breakpoints_def same_breakpoints_def)
qed

lemma run_action_Fail:
  assumes "run_action L w info locs name p hx = (Fail e, hx')" "bps_inv (h_breakpoints (hx_handler hx))"
    and "bp_index (h_breakpoints (hx_handler hx)) < 2 ^ 63 - 1"
  shows "hx_continueRead hx' = hx_continueRead hx \<and> hx_err hx' = hx_err hx \<and>
         hx_targetBreakpoint hx' = hx_targetBreakpoint hx \<and> same_breakpoints (hx_handler hx) (hx_handler hx')"
proof (cases "\<exists>key bp. add_breakpoint key bp hx = (Fail e, hx')")
  case True
  then obtain key bp where "add_breakpoint key bp hx = (Fail e, hx')"
    by blast
  from add_breakpoint_Fail [OF this assms(2,3)] show ?thesis
    by (metis handler_context.select_convs(2-4) handler_context.surjective handler_context.update_convs(1))
next
  case False
  with assms(1) show ?thesis
    by (auto simp: run_action_def breakAction_def breakpointsAction_def clearAction_def clearAllAction_def
        nextAction_def continueAction_def reloadAction_def exitAction_def exec_command_def list_command_def
        log_command_def say_def Let_def split: if_splits option.splits prod.splits list.splits)
qed

section \<open>What ends the shell\<close>

definition invoked :: "libs \<Rightarrow> (read_outcome \<times> world) list \<Rightarrow> string \<Rightarrow> bool" where
  "invoked L inputs name \<longleftrightarrow>
     (\<exists>ln w args p. (Line ln None, w) \<in> set inputs \<and> lb_split L ln = Inr args \<and>
        lb_run L handlerCommands args = Invoke name p)"

text \<open>The reasons for a result: the command that was invoked, or the end of the input.\<close>

definition reason :: "libs \<Rightarrow> (read_outcome \<times> world) list \<Rightarrow> unit go_result \<Rightarrow> handler \<Rightarrow> bool" where
  "reason L inputs res h' \<longleftrightarrow>
     (case res of
        Ok _ \<Rightarrow> invoked L inputs ''next'' \<and> h_breakEachVertex h' \<or>
                invoked L inputs ''continue'' \<and> \<not> h_breakEachVertex h'
      | Fail e \<Rightarrow> invoked L inputs ''reload'' \<and> e = ErrReload \<or> invoked L inputs ''exit'' \<and> e = ErrExit \<or>
                  (\<exists>r \<in> fst ` set inputs. readLine r = Inl e)
      | Panic m \<Rightarrow> True)"

lemma readLine_Inr: "readLine r = Inr ln \<longleftrightarrow> r = Line ln None"
  by (auto simp: readLine_def split: read_outcome.splits option.splits)

text \<open>The context a command starts from, and a dispatched command.\<close>

abbreviation start_context :: "handler \<Rightarrow> handler_context" where
  "start_context h \<equiv> \<lparr>hx_handler = h, hx_continueRead = True, hx_targetBreakpoint = [], hx_err = None, hx_out = []\<rparr>"

lemma dispatch_Invoke:
  assumes "args \<noteq> []" "hd args \<noteq> []" "lb_run L handlerCommands args = Invoke name p"
    and "run_action L w info locs name p (start_context h) = (r, hx)"
  shows "dispatch L info locs w args (h, s) =
    (case r of Panic m \<Rightarrow> Panic m | _ \<Rightarrow> (case hx_err hx of Some e \<Rightarrow> Fail e | None \<Rightarrow> Ok (hx_continueRead hx)),
     hx_handler hx,
     put (hx_out hx @ (case r of Fail e \<Rightarrow> [ErrorText e] | _ \<Rightarrow> []))
       s\<lparr>sh_target := (if hx_targetBreakpoint hx \<noteq> [] then hx_targetBreakpoint hx else sh_target s)\<rparr>)"
  using assms by (simp add: dispatch_def)

lemma verdict_None:
  "verdict name hx \<Longrightarrow> hx_err hx = None \<Longrightarrow> \<not> hx_continueRead hx \<Longrightarrow>
   name = ''next'' \<and> h_breakEachVertex (hx_handler hx) \<or> name = ''continue'' \<and> \<not> h_breakEachVertex (hx_handler hx)"
  by (simp add: verdict_def)

lemma verdict_Some:
  "verdict name hx \<Longrightarrow> hx_err hx = Some e \<Longrightarrow> name = ''reload'' \<and> e = ErrReload \<or> name = ''exit'' \<and> e = ErrExit"
  by (simp add: verdict_def)

lemma dispatch_reason:
  assumes "dispatch L info locs w args hs = (res, h', s')" "res \<noteq> Ok True"
  shows "(\<exists>m. res = Panic m) \<or>
    (\<exists>name p. lb_run L handlerCommands args = Invoke name p \<and>
       (res = Ok False \<and> (name = ''next'' \<and> h_breakEachVertex h' \<or> name = ''continue'' \<and> \<not> h_breakEachVertex h') \<or>
        res = Fail ErrReload \<and> name = ''reload'' \<or> res = Fail ErrExit \<and> name = ''exit''))"
proof -
  obtain h s where hs: "hs = (h, s)"
    by (cases hs)
  show ?thesis
  proof (cases "lb_run L handlerCommands args")
    case (Invoke name p)
    obtain r hx where run: "run_action L w info locs name p (start_context h) = (r, hx)"
      by (cases "run_action L w info locs name p (start_context h)")
    have v: "verdict name hx"
      using run_action_verdict [of "start_context h" name L w info locs p] by (simp add: run)
    have args: "args \<noteq> []" "hd args \<noteq> []"
      using assms by (auto simp: dispatch_def hs)
    note eq = assms(1) [unfolded hs dispatch_Invoke [OF args Invoke run]]
    show ?thesis
    proof (cases "hx_err hx")
      case None
      with eq assms(2) have "(\<exists>m. res = Panic m) \<or> res = Ok False \<and> \<not> hx_continueRead hx \<and> h' = hx_handler hx"
        by (cases r) auto
      with verdict_None [OF v None] Invoke show ?thesis
        by metis
    next
      case (Some e)
      with eq have "(\<exists>m. res = Panic m) \<or> res = Fail e"
        by (cases r) auto
      with verdict_Some [OF v Some] Invoke show ?thesis
        by metis
    qed
  qed (use assms in \<open>auto simp: dispatch_def hs Let_def split: if_splits\<close>)
qed

lemma shell_round_reason:
  assumes "shell_round L info locs i hs = (Some res, h', s')"
  shows "reason L [i] res h'"
proof -
  obtain r w where i: "i = (r, w)" by (cases i)
  obtain h s where hs: "hs = (h, s)" by (cases hs)
  show ?thesis
  proof (cases "readLine r")
    case (Inl e)
    with assms show ?thesis
      by (auto simp: shell_round_def i hs Let_def reason_def)
  next
    case (Inr ln)
    then have r: "r = Line ln None"
      by (simp add: readLine_Inr)
    from assms Inr obtain args where args: "lb_split L ln = Inr args" "args \<noteq> []"
      by (auto simp: shell_round_def i hs Let_def split: sum.splits if_splits)
    obtain d h1 s1 where d: "dispatch L info locs w args (h, put [Prompt] s) = (d, h1, s1)"
      by (cases "dispatch L info locs w args (h, put [Prompt] s)") auto
    have "d \<noteq> Ok True \<and> h1 = h' \<and> res = (case d of Ok _ \<Rightarrow> Ok () | Fail e \<Rightarrow> Fail e | Panic m \<Rightarrow> Panic m)"
      using assms Inr args d by (auto simp: shell_round_def i hs Let_def split: go_result.splits if_splits)
    moreover have "invoked L [i] name" if "lb_run L handlerCommands args = Invoke name p" for name p
      using that args r i by (auto simp: invoked_def)
    ultimately show ?thesis
      using dispatch_reason [OF d] by (auto simp: reason_def)
  qed
qed

lemma reason_mono: "reason L is res h \<Longrightarrow> set is \<subseteq> set js \<Longrightarrow> reason L js res h"
  by (cases res) (fastforce simp: reason_def invoked_def)+

lemma shell_loop_reason:
  assumes "shell_loop L info locs inputs hs = (res, h', s')"
  shows "\<exists>read. inputs = read @ sh_input s' \<and>
           (reason L read res h' \<or> sh_input s' = [] \<and> res = Fail ErrExit)"
  using assms
proof (induction inputs arbitrary: hs)
  case Nil
  then show ?case
    by (auto simp: put_def)
next
  case (Cons i inputs)
  obtain d h1 s1 where d: "shell_round L info locs i hs = (d, h1, s1)"
    by (cases "shell_round L info locs i hs")
  show ?case
  proof (cases d)
    case None
    with Cons.prems d have "shell_loop L info locs inputs (h1, s1) = (res, h', s')"
      by simp
    from Cons.IH [OF this] obtain read where "inputs = read @ sh_input s'"
        "reason L read res h' \<or> sh_input s' = [] \<and> res = Fail ErrExit"
      by blast
    then show ?thesis
      using reason_mono [of L read res h' "i # read"] by (intro exI [of _ "i # read"]) auto
  next
    case (Some r)
    with Cons.prems d have r: "r = res" "h1 = h'" "sh_input s' = inputs"
      by auto
    with shell_round_reason [OF d [unfolded Some]] show ?thesis
      by (intro exI [of _ "[i]"]) simp
  qed
qed

section \<open>The shell as the client of the handler\<close>

text \<open>
  \<open>shell_client\<close> is the breakpoint handler that \<open>debugAction\<close> installs (a panic, which ends
  the process, is an error here, so that nothing runs after it); \<open>visit\<close> runs the
  \<open>Handler\<close> with it over the steps of a build, up to the first error.
\<close>

definition shell_client :: "libs \<Rightarrow> source_info list \<Rightarrow> shell break_handler" where
  "shell_client L order info locs hits hs =
     (case breakHandler L order info locs hits hs of
        (Ok _, hs') \<Rightarrow> (None, hs')
      | (Fail e, hs') \<Rightarrow> (Some e, hs')
      | (Panic m, hs') \<Rightarrow> (Some (ExtErr m), hs'))"

primrec visit ::
  "libs \<Rightarrow> (source_info list \<times> registered_status \<times> location list) list \<Rightarrow> handler \<times> shell
     \<Rightarrow> go_err option \<times> handler \<times> shell" where
  "visit L [] hs = (None, hs)"
| "visit L (st # sts) hs =
     (case st of (order, info, locs) \<Rightarrow>
        (case Handler_handle (shell_client L order) info locs hs of
           (None, hs') \<Rightarrow> visit L sts hs'
         | (Some e, hs') \<Rightarrow> (Some e, hs')))"

definition hits_key :: "handler \<Rightarrow> string \<Rightarrow> registered_status \<Rightarrow> location list \<Rightarrow> bool" where
  "hits_key h k info locs \<longleftrightarrow>
     (case Get (h_breakpoints h) k of None \<Rightarrow> False | Some bp \<Rightarrow> fst (isTarget bp info locs))"

lemma hits_key_iff:
  assumes "handler_inv h"
  shows "k \<in> set (map fst (getHitBreakpoints (h_breakpoints h) info locs)) \<longleftrightarrow> hits_key h k info locs"
proof -
  have "bps_inv (h_breakpoints h)"
    using assms by (simp add: handler_inv_def)
  from getHitBreakpoints_lookup [OF this, of info locs k] show ?thesis
    by (cases "Get (h_breakpoints h) k")
      (auto simp: hits_key_def hit_info_def dom_map_of_conv_image_fst [symmetric] domIff split: prod.splits if_splits)
qed

text \<open>A step that misses the target changes only what was printed.\<close>

lemma handle_missed:
  assumes "handler_inv h" "sh_target s = k" "k \<noteq> []" "\<not> hits_key h k info locs"
  shows "\<exists>e o'. Handler_handle (shell_client L order) info locs (h, s) =
           (None, h\<lparr>h_entried := e\<rparr>, s\<lparr>sh_out := sh_out s @ o'\<rparr>) \<and> Prompt \<notin> set o'"
proof (cases "stops_at h info locs")
  case True
  let ?hits = "getHitBreakpoints (h_breakpoints h) info locs"
  have ig: "ignored k ?hits"
    using hits_key_iff [OF assms(1), of k info locs] assms(3,4) by (simp add: ignored_def)
  have "Handler_handle (shell_client L order) info locs (h, s) = (None, h\<lparr>h_entried := True\<rparr>,
      put (map (\<lambda>(key, i). HitLine key (bi_description i)) ?hits @ [IgnoredHits (map fst ?hits)]) s)"
    using True ig assms(2)
    by (simp add: Handler_handle_eq [OF assms(1)] shell_client_def breakHandler_def put_def)
  moreover have "Prompt \<notin> set (map (\<lambda>(key, i). HitLine key (bi_description i)) ?hits @ [IgnoredHits (map fst ?hits)])"
    by auto
  ultimately show ?thesis
    unfolding put_def by blast
next
  case False
  then have "Handler_handle (shell_client L order) info locs (h, s) = (None, h\<lparr>h_entried := h_entried h\<rparr>, s\<lparr>sh_out := sh_out s @ []\<rparr>)"
    by (simp add: Handler_handle_eq [OF assms(1)])
  then show ?thesis
    by (metis empty_iff list.set(1))
qed

lemma handler_entried [simp]:
  "handler_inv (h\<lparr>h_entried := e\<rparr>) = handler_inv h" "hits_key (h\<lparr>h_entried := e\<rparr>) = hits_key h"
  by (simp_all add: handler_inv_def hits_key_def fun_eq_iff)

lemma hits_key_stops:
  assumes "hits_key h k info locs" "locs \<noteq> []" "\<not> h_disableBreakpoints h"
  shows "stops_at h info locs"
proof -
  obtain bp where bp: "Get (h_breakpoints h) k = Some bp" "fst (isTarget bp info locs)"
    using assms(1) by (auto simp: hits_key_def split: option.splits)
  then have "hit_info bp info locs \<noteq> None"
    by (simp add: hit_info_def case_prod_unfold)
  with bp(1) assms(2,3) show ?thesis
    unfolding stops_at_def by blast
qed

lemma visit_missed:
  "handler_inv h \<Longrightarrow> sh_target s = k \<Longrightarrow> k \<noteq> [] \<Longrightarrow>
   \<forall>(order, info, locs) \<in> set sts. \<not> hits_key h k info locs \<Longrightarrow>
   \<exists>e o'. visit L (sts @ sts') (h, s) = visit L sts' (h\<lparr>h_entried := e\<rparr>, s\<lparr>sh_out := sh_out s @ o'\<rparr>) \<and>
     Prompt \<notin> set o'"
proof (induction sts arbitrary: h s)
  case Nil
  have "visit L ([] @ sts') (h, s) = visit L sts' (h\<lparr>h_entried := h_entried h\<rparr>, s\<lparr>sh_out := sh_out s @ []\<rparr>)"
    by simp
  then show ?case
    by (metis empty_iff list.set(1))
next
  case (Cons st sts)
  obtain order info locs where st: "st = (order, info, locs)"
    by (cases st)
  with Cons.prems have "\<not> hits_key h k info locs"
    by simp
  from handle_missed [OF Cons.prems(1-3) this] obtain e o' where
      step: "Handler_handle (shell_client L order) info locs (h, s) =
        (None, h\<lparr>h_entried := e\<rparr>, s\<lparr>sh_out := sh_out s @ o'\<rparr>)" "Prompt \<notin> set o'"
    by blast
  from Cons.IH [of "h\<lparr>h_entried := e\<rparr>" "s\<lparr>sh_out := sh_out s @ o'\<rparr>"] Cons.prems obtain e' o'' where
      "visit L (sts @ sts') (h\<lparr>h_entried := e\<rparr>, s\<lparr>sh_out := sh_out s @ o'\<rparr>) =
       visit L sts' (h\<lparr>h_entried := e'\<rparr>, s\<lparr>sh_out := sh_out s @ (o' @ o'')\<rparr>)" "Prompt \<notin> set o''"
    by auto
  with step show ?case
    by (intro exI [of _ e'] exI [of _ "o' @ o''"]) (simp add: st)
qed

section \<open>No run-time panics\<close>

text \<open>The status has a result for every mount of its operation, initial and final.\<close>

definition mounts_registered :: "registered_status \<Rightarrow> bool" where
  "mounts_registered info \<longleftrightarrow>
     (case op_kind_of (rs_op info) of
        Op_Exec ex \<Rightarrow> length (ex_mounts ex) \<le> length (rs_input_ids info) \<and>
                       length (ex_mounts ex) \<le> length (rs_mount_ids info)
      | Op_Other \<Rightarrow> True)"

lemma execAction_no_panic:
  assumes "mounts_registered info" "ee_console env"
  shows "no_panic (fst (execAction env pw img info f))"
proof -
  let ?cfg = "exec_config img info f"
  have "no_panic (container_base ?cfg)"
    using container_base_panic_iff [of ?cfg] assms
    by (auto simp: mounts_registered_def exec_config_def container_mount_ids_def split: if_splits)
  then have "no_panic (fst (ExecContainer env ?cfg))"
    using assms(2) by (simp add: ExecContainer_panic_iff)
  then show ?thesis
    by (cases "ExecContainer env ?cfg") (auto simp: execAction_def Let_def split: go_result.splits proc_wait.splits)
qed

text \<open>What a command needs: a terminal for \<open>exec\<close>, a length that can be made for \<open>log\<close>.\<close>

definition can_run :: "world \<Rightarrow> string \<Rightarrow> parsed \<Rightarrow> bool" where
  "can_run w name p \<longleftrightarrow>
     (name = ''exec'' \<longrightarrow> ee_console (w_exec w)) \<and> (name = ''log'' \<longrightarrow> pa_int p ''n'' \<le> max_strings)"

text \<open>The commands that the lines of the input come to have what they need.\<close>

definition can_run_all :: "libs \<Rightarrow> (read_outcome \<times> world) list \<Rightarrow> bool" where
  "can_run_all L inputs \<longleftrightarrow>
     (\<forall>(r, w) \<in> set inputs.
        (case r of
           Line ln None \<Rightarrow>
             (case lb_split L ln of
                Inl _ \<Rightarrow> True
              | Inr args \<Rightarrow>
                  (case lb_run L handlerCommands args of Invoke name p \<Rightarrow> can_run w name p | _ \<Rightarrow> True))
         | _ \<Rightarrow> True))"

lemma can_run_allD:
  "can_run_all L inputs \<Longrightarrow> (Line ln None, w) \<in> set inputs \<Longrightarrow> lb_split L ln = Inr args \<Longrightarrow>
   lb_run L handlerCommands args = Invoke name p \<Longrightarrow> can_run w name p"
  by (force simp: can_run_all_def)

lemma log_command_no_panic: "pa_int p ''n'' \<le> max_strings \<Longrightarrow> no_panic (fst (log_command w p hx))"
  by (auto simp: log_command_def logAction_def split: sum.split)

lemma run_action_no_panic:
  assumes "mounts_registered info" "locs \<noteq> []" "can_run w name p"
  shows "no_panic (fst (run_action L w info locs name p hx))"
proof -
  have "no_panic (fst (exec_command L w info p hx))" if "name = ''exec''"
    using execAction_no_panic [OF assms(1)] assms(3) that by (simp add: can_run_def exec_command_def case_prod_unfold)
  moreover have "no_panic (fst (log_command w p hx))" if "name = ''log''"
    using log_command_no_panic assms(3) that by (simp add: can_run_def)
  ultimately show ?thesis
    using assms(2)
    by (auto simp: run_action_def breakAction_def add_breakpoint_def breakpointsAction_def clearAction_def
        clearAllAction_def nextAction_def continueAction_def reloadAction_def exitAction_def list_command_def
        Let_def split: option.splits prod.splits list.splits sum.splits)
qed

lemma dispatch_no_panic:
  assumes "mounts_registered info" "locs \<noteq> []"
    and can: "\<And>name p. lb_run L handlerCommands args = Invoke name p \<Longrightarrow> can_run w name p"
  shows "no_panic (fst (dispatch L info locs w args hs))"
proof -
  obtain h s where hs: "hs = (h, s)" by (cases hs)
  show ?thesis
  proof (cases "lb_run L handlerCommands args")
    case (Invoke name p)
    obtain r hx where run: "run_action L w info locs name p (start_context h) = (r, hx)"
      by (cases "run_action L w info locs name p (start_context h)")
    have "no_panic r"
      using run_action_no_panic [OF assms(1,2) can [OF Invoke], of L "start_context h"] by (simp add: run)
    with Invoke run show ?thesis
      by (cases r) (auto simp: dispatch_def hs split: option.splits)
  qed (auto simp: dispatch_def hs)
qed

lemma shell_loop_no_panic:
  assumes "mounts_registered info" "locs \<noteq> []" "can_run_all L inputs"
  shows "no_panic (fst (shell_loop L info locs inputs hs))"
  using assms(3)
proof (induction inputs arbitrary: hs)
  case (Cons i inputs)
  have "no_panic res" if "shell_round L info locs i hs = (Some res, hs')" for res hs'
  proof -
    obtain r w h s where [simp]: "i = (r, w)" "hs = (h, s)"
      by (cases i; cases hs) auto
    show ?thesis
    proof (cases "\<exists>ln args. readLine r = Inr ln \<and> lb_split L ln = Inr args \<and> args \<noteq> []")
      case True
      then obtain ln args where ln: "readLine r = Inr ln" "lb_split L ln = Inr args" "args \<noteq> []"
        by blast
      obtain d hs1 where d: "dispatch L info locs w args (h, put [Prompt] s) = (d, hs1)"
        by (cases "dispatch L info locs w args (h, put [Prompt] s)")
      have "r = Line ln None"
        using ln(1) by (simp add: readLine_Inr)
      then have can: "can_run w name p" if "lb_run L handlerCommands args = Invoke name p" for name p
        using can_run_allD [OF Cons.prems _ ln(2) that] by simp
      have "no_panic d"
        using dispatch_no_panic [OF assms(1,2) can, of L args "(h, put [Prompt] s)"] by (simp add: d)
      with that ln d show ?thesis
        by (cases d) (auto simp: shell_round_def split: if_splits)
    next
      case False
      with that show ?thesis
        by (auto simp: shell_round_def Let_def split: sum.splits if_splits)
    qed
  qed
  moreover have "can_run_all L inputs"
    using Cons.prems by (simp add: can_run_all_def)
  ultimately show ?case
    using Cons.IH by (cases "shell_round L info locs i hs") (auto split: option.splits)
qed simp

section \<open>A command line library\<close>

text \<open>The library of \<open>Cli\<close> with a splitting at blanks.\<close>

definition simple_libs :: libs where
  "simple_libs = \<lparr>lb_split = (\<lambda>ln. Inr (filter (\<lambda>w. w \<noteq> []) (split_at_char CHR '' '' ln))),
                  lb_run = simple_run, lb_prints = (\<lambda>_ _. []), lb_image = None\<rparr>"

lemma commands_ok: "table_ok handlerCommands"
  by code_simp

lemmas cli_ok_command = cli_ok_run [OF _ commands_ok, where run = "lb_run L" for L]

text \<open>The same with the library that parses flags.\<close>

definition flag_libs :: libs where
  "flag_libs = simple_libs\<lparr>lb_run := flags_run\<rparr>"

section \<open>Properties\<close>

text \<open>
  C5. A stop ends only by a decision of the user: the build goes on after a \<open>next\<close> (and
  then stops at each step) or a \<open>continue\<close> (and then does not), or at once and with
  nothing read because the stop misses the key that an earlier \<open>continue KEY\<close> waits for;
  it is restarted only by \<open>reload\<close>, and left only by \<open>exit\<close>, by the end of the input or by
  an error of reading.
\<close>

theorem shell_ends_by_decision:
  assumes "breakHandler L order info locs hits (h, s) = (res, h', s')"
  shows "\<exists>read. sh_input s = read @ sh_input s' \<and>
    (case res of
       Ok _ \<Rightarrow> invoked L read ''next'' \<and> h_breakEachVertex h' \<or>
               invoked L read ''continue'' \<and> h_breakEachVertex h' = False \<or>
               read = [] \<and> h' = h \<and> sh_target s' = sh_target s \<and> sh_target s \<noteq> [] \<and> sh_target s \<notin> set (map fst hits)
     | Fail e \<Rightarrow> invoked L read ''reload'' \<and> e = ErrReload \<or>
                 invoked L read ''exit'' \<and> e = ErrExit \<or>
                 sh_input s' = [] \<and> e = ErrExit \<or>
                 (\<exists>r \<in> fst ` set read. readLine r = Inl e)
     | Panic m \<Rightarrow> True)"
proof (cases "ignored (sh_target s) hits")
  case True
  with assms have "res = Ok ()" "h' = h" "sh_input s' = sh_input s" "sh_target s' = sh_target s"
    by (auto simp: breakHandler_def put_def)
  with True show ?thesis
    by (intro exI [of _ "[]"]) (simp add: ignored_def)
next
  case False
  with assms obtain s2 where "shell_loop L info locs (sh_input s) (h, s2) = (res, h', s')"
    by (auto simp: breakHandler_def Let_def)
  from shell_loop_reason [OF this] show ?thesis
    by (cases res) (auto simp: reason_def)
qed

definition sample_world :: world where
  "sample_world = \<lparr>w_order = [], w_log_file = Inr [], w_progress = newProgressWriter,
     w_exec = \<lparr>ee_new_container = None, ee_start = None, ee_console = True, ee_set_raw = None\<rparr>, w_wait = ProcDone\<rparr>"

definition sample_handler :: handler where
  "sample_handler = \<lparr>h_breakpoints = NewBreakpoints, h_breakEachVertex = False, h_entried = False,
     h_stopOnEntry = True, h_disableBreakpoints = False\<rparr>"

definition sample_locs :: "location list" where
  "sample_locs = [\<lparr>loc_source = sample_source, loc_ranges = [\<lparr>start_line = 2, end_line = 2\<rparr>]\<rparr>]"

definition sample_shell :: "string \<Rightarrow> string list \<Rightarrow> shell" where
  "sample_shell target lines =
     \<lparr>sh_target = target, sh_input = map (\<lambda>ln. (Line ln None, sample_world)) lines, sh_out = []\<rparr>"

text \<open>Lines that the library with flags parses to commands that can run.\<close>

lemma flag_libs_split:
  "lb_split flag_libs ''break 2'' = Inr [''break'', ''2'']" "lb_split flag_libs ''exec ls'' = Inr [''exec'', ''ls'']"
  "lb_split flag_libs ''log -n 5'' = Inr [''log'', ''-n'', ''5'']" "lb_split flag_libs ''list'' = Inr [''list'']"
  "lb_split flag_libs ''exit'' = Inr [''exit'']"
  by code_simp+

lemma flag_libs_plain [simp]:
  "case lb_run flag_libs handlerCommands [''break'', ''2''] of Invoke name p \<Rightarrow> can_run sample_world name p | _ \<Rightarrow> True"
  "case lb_run flag_libs handlerCommands [''exec'', ''ls''] of Invoke name p \<Rightarrow> can_run sample_world name p | _ \<Rightarrow> True"
  "case lb_run flag_libs handlerCommands [''list''] of Invoke name p \<Rightarrow> can_run sample_world name p | _ \<Rightarrow> True"
  "case lb_run flag_libs handlerCommands [''exit''] of Invoke name p \<Rightarrow> can_run sample_world name p | _ \<Rightarrow> True"
  by (simp_all add: flag_libs_def flags_run_def handlerCommands_def command_names_def can_run_def sample_world_def
      split: sum.split)

lemma flag_libs_log:
  "case lb_run flag_libs handlerCommands [''log'', ''-n'', ''5''] of Invoke name p \<Rightarrow> can_run sample_world name p | _ \<Rightarrow> True"
proof -
  have "''5'' = show_int 5"
    by code_simp
  then have five: "parse_int64 ''5'' = Some 5"
    using parse_int64_show_int [of 5] by (simp add: in64_def)
  have "flag_named log_flag_specs ''n'' = Some (''n'', IntV 10)"
    by code_simp
  then show ?thesis
    by (simp add: flag_libs_def flags_run_def handlerCommands_def command_names_def flag_defaults_def Let_def
        is_switch_def set_flag_def five parsed_of_def can_run_def max_strings_def flag_key_def
        split: sum.split)
qed

theorem shell_ends_by_decision_witness:
  "\<exists>h' s' read. breakHandler simple_libs [] (sample_status None) sample_locs []
       (sample_handler, sample_shell [] [''breakpoints'', ''next'', ''exit'']) = (Ok (), h', s') \<and>
     invoked simple_libs read ''next'' \<and> h_breakEachVertex h' \<and> length (sh_input s') = 1"
proof -
  let ?run = "breakHandler simple_libs [] (sample_status None) sample_locs []
       (sample_handler, sample_shell [] [''breakpoints'', ''next'', ''exit''])"
  have run: "fst ?run = Ok ()" "h_breakEachVertex (fst (snd ?run))" "length (sh_input (snd (snd ?run))) = 1"
    by code_simp+
  have "?run = (Ok (), fst (snd ?run), snd (snd ?run))"
    using run(1) by (metis prod.collapse)
  from shell_ends_by_decision [OF this] run show ?thesis
    by (auto simp: sample_shell_def intro!: exI [of _ "fst (snd ?run)"] exI [of _ "snd (snd ?run)"] prod_eqI)
qed

text \<open>
  C17. \<open>continue KEY\<close> runs to the breakpoint \<open>KEY\<close>: however many steps pass without hitting
  it, whatever else they hit, the shell does not prompt and reads no input, and the
  breakpoints and the key it waits for stay; at the first step that hits the key the shell
  opens and the key is forgotten.
\<close>

theorem continue_runs_to_key:
  assumes "handler_inv h" "sh_target s = k" "k \<noteq> []" "h_disableBreakpoints h = False"
    and "\<forall>(order, info, locs) \<in> set sts. \<not> hits_key h k info locs"
    and "hits_key h k info locs" "locs \<noteq> []"
  shows "\<exists>e o' o''. Prompt \<notin> set o' \<and>
    visit L sts (h, s) = (None, h\<lparr>h_entried := e\<rparr>, s\<lparr>sh_out := sh_out s @ o'\<rparr>) \<and>
    Handler_handle (shell_client L order) info locs (h\<lparr>h_entried := e\<rparr>, s\<lparr>sh_out := sh_out s @ o'\<rparr>) =
      (case shell_loop L info locs (sh_input s)
              (h\<lparr>h_entried := True\<rparr>, s\<lparr>sh_target := [], sh_out := sh_out s @ o' @ o''\<rparr>) of
         (Ok _, hs') \<Rightarrow> (None, hs')
       | (Fail err, hs') \<Rightarrow> (Some err, hs')
       | (Panic m, hs') \<Rightarrow> (Some (ExtErr m), hs'))"
proof -
  from visit_missed [OF assms(1-3,5), of L "[]"] obtain e o' where
      missed: "visit L sts (h, s) = (None, h\<lparr>h_entried := e\<rparr>, s\<lparr>sh_out := sh_out s @ o'\<rparr>)" "Prompt \<notin> set o'"
    by auto
  let ?hits = "getHitBreakpoints (h_breakpoints h) info locs"
  let ?listing = "map Listed (printLines order (h_breakpoints h) locs defaultListRange defaultListRange False)"
  let ?hitlines = "map (\<lambda>(key, i). HitLine key (bi_description i)) ?hits"
  have "stops_at (h\<lparr>h_entried := e\<rparr>) info locs"
    using assms(4,6,7) by (intro hits_key_stops [of _ k]) simp_all
  moreover have "\<not> ignored k ?hits"
    using hits_key_iff [OF assms(1), of k info locs] assms(6) by (simp add: ignored_def)
  ultimately have "Handler_handle (shell_client L order) info locs (h\<lparr>h_entried := e\<rparr>, s\<lparr>sh_out := sh_out s @ o'\<rparr>) =
      (case shell_loop L info locs (sh_input s)
              (h\<lparr>h_entried := True\<rparr>, s\<lparr>sh_target := [], sh_out := sh_out s @ o' @ (?hitlines @ ?listing)\<rparr>) of
         (Ok _, hs') \<Rightarrow> (None, hs')
       | (Fail err, hs') \<Rightarrow> (Some err, hs')
       | (Panic m, hs') \<Rightarrow> (Some (ExtErr m), hs'))"
    using assms(1,2) by (simp add: Handler_handle_eq shell_client_def breakHandler_def Let_def put_def)
  with missed show ?thesis
    by blast
qed

definition marked_handler :: handler where
  "marked_handler = sample_handler\<lparr>h_breakpoints := fst (Add NewBreakpoints [] (LineBp ''Dockerfile'' 2))\<rparr>"

lemma marked_handler_inv: "handler_inv marked_handler"
  using store_step_inv [of NewBreakpoints "AddLine ''Dockerfile'' 2"]
  by (simp add: marked_handler_def handler_inv_def NewLineBreakpoint_def)

text \<open>A step elsewhere, on line 1.\<close>

definition other_locs :: "location list" where
  "other_locs = [\<lparr>loc_source = sample_source, loc_ranges = [\<lparr>start_line = 1, end_line = 1\<rparr>]\<rparr>]"

theorem continue_runs_to_key_witness:
  "\<exists>e o'. Prompt \<notin> set o' \<and>
     visit simple_libs [([], sample_status None, other_locs), ([], sample_status None, other_locs)]
       (marked_handler, sample_shell ''0'' [''next'']) =
     (None, marked_handler\<lparr>h_entried := e\<rparr>,
      (sample_shell ''0'' [''next''])\<lparr>sh_out := sh_out (sample_shell ''0'' [''next'']) @ o'\<rparr>)"
proof -
  have "sh_target (sample_shell ''0'' [''next'']) = ''0''" "(''0'' :: string) \<noteq> []"
    "h_disableBreakpoints marked_handler = False" "sample_locs \<noteq> []"
    by (simp_all add: sample_shell_def marked_handler_def sample_handler_def sample_locs_def)
  moreover have "\<not> hits_key marked_handler ''0'' (sample_status None) other_locs"
    "hits_key marked_handler ''0'' (sample_status None) sample_locs"
    by code_simp+
  ultimately show ?thesis
    using continue_runs_to_key [OF marked_handler_inv, of "sample_shell ''0'' [''next'']" "''0''"
        "[([], sample_status None, other_locs), ([], sample_status None, other_locs)]"
        "sample_status None" sample_locs simple_libs "[]"]
    by fastforce
qed

text \<open>
  C25. A command that fails does no harm: its error is printed, the shell goes on reading,
  and the breakpoints, the mode, the entry flag and the key that is waited for are as before.
\<close>

theorem failed_command_harmless:
  assumes "bps_inv (h_breakpoints h)" "bp_index (h_breakpoints h) < 2 ^ 63 - 1"
    and "args \<noteq> []" "hd args \<noteq> []" "lb_run L handlerCommands args = Invoke name p"
    and "fst (run_action L w info locs name p (start_context h)) = Fail e"
  shows "\<exists>h' s'. dispatch L info locs w args (h, s) = (Ok True, h', s') \<and>
    Get (h_breakpoints h') = Get (h_breakpoints h) \<and> h_breakEachVertex h' = h_breakEachVertex h \<and>
    h_entried h' = h_entried h \<and> h_stopOnEntry h' = h_stopOnEntry h \<and>
    h_disableBreakpoints h' = h_disableBreakpoints h \<and>
    sh_target s' = sh_target s \<and> sh_input s' = sh_input s \<and> last (sh_out s') = ErrorText e"
proof -
  obtain hx where run: "run_action L w info locs name p (start_context h) = (Fail e, hx)"
    using assms(6) by (metis prod.collapse)
  have "hx_continueRead hx" "hx_err hx = None" "hx_targetBreakpoint hx = []"
      and same: "same_breakpoints h (hx_handler hx)"
    using run_action_Fail [OF run] assms(1,2) by simp_all
  then have "dispatch L info locs w args (h, s) =
      (Ok True, hx_handler hx, (put (hx_out hx @ [ErrorText e]) s)\<lparr>sh_target := sh_target s\<rparr>)"
    by (simp add: dispatch_Invoke [OF assms(3-5) run])
  moreover have "h_breakEachVertex (hx_handler hx) = h_breakEachVertex h \<and> h_entried (hx_handler hx) = h_entried h \<and>
      h_stopOnEntry (hx_handler hx) = h_stopOnEntry h \<and> h_disableBreakpoints (hx_handler hx) = h_disableBreakpoints h \<and>
      Get (h_breakpoints (hx_handler hx)) = Get (h_breakpoints h)"
    using same unfolding same_breakpoints_def
    by (metis handler.select_convs(2-5) handler.surjective handler.update_convs(1))
  ultimately show ?thesis
    by (intro exI [of _ "hx_handler hx"] exI [of _ "(put (hx_out hx @ [ErrorText e]) s)\<lparr>sh_target := sh_target s\<rparr>"])
      (simp add: put_def)
qed

theorem failed_command_harmless_witness:
  "\<exists>h' s'. dispatch simple_libs (sample_status None) sample_locs sample_world [''clear'', ''7'']
       (marked_handler, sample_shell ''0'' []) = (Ok True, h', s') \<and>
     Get (h_breakpoints h') = Get (h_breakpoints marked_handler) \<and> sh_target s' = ''0'' \<and>
     last (sh_out s') = ErrorText (Errorf ''breakpoint %q not found'' [''7''])"
proof -
  have inv: "bps_inv (h_breakpoints marked_handler)" "bp_index (h_breakpoints marked_handler) < 2 ^ 63 - 1"
    using marked_handler_inv by (simp add: handler_inv_def) code_simp
  obtain p where p: "lb_run simple_libs handlerCommands ([''clear'', ''7'']) = Invoke ''clear'' p" "pa_args p = [''7'']"
    using cli_ok_command [of simple_libs "''clear''" "''clear''" "[]" "[''7'']"] simple_run_ok
    by (auto simp: simple_libs_def handlerCommands_def command_names_def)
  have "Get (h_breakpoints marked_handler) ''7'' = None"
    by code_simp
  then have "fst (run_action simple_libs sample_world (sample_status None) sample_locs ''clear'' p
      (start_context marked_handler)) = Fail (Errorf ''breakpoint %q not found'' [''7''])"
    by (simp add: run_action_def clearAction_def First_def p(2) del: Get_simps)
  from failed_command_harmless [OF inv _ _ p(1) this, of "sample_shell ''0'' []"] show ?thesis
    by (auto simp: sample_shell_def)
qed

lemma show_int_plain:
  assumes "0 \<le> n"
  shows "take 1 (show_int n) \<noteq> ''-''"
proof -
  obtain c cs where c: "show_int n = c # cs"
    using show_int_nonempty [of n] by (cases "show_int n") auto
  with assms have "show_nat (nat n) = c # cs"
    by (simp add: show_int_def)
  then have "is_digit c"
    by (rule show_nat_Cons_digit)
  with c show ?thesis
    by (auto simp: is_digit_def)
qed

text \<open>\<open>break N\<close> changes the store and nothing else, and the shell goes on.\<close>

lemma break_command_adds:
  assumes "cli_ok (lb_run L)" "lb_split L ln = Inr [''break'', show_int n]" "0 \<le> n" "n < 2 ^ 63"
    and "Add (h_breakpoints h) [] (LineBp (si_filename (loc_source loc)) n) = (b, Inr key)"
  shows "\<exists>s'. shell_round L info (loc # locs) (Line ln None, w) (h, s) = (None, h\<lparr>h_breakpoints := b\<rparr>, s')"
proof -
  obtain p where p: "lb_run L handlerCommands [''break'', show_int n] = Invoke ''break'' p" "pa_args p = [show_int n]"
    using cli_ok_command [OF assms(1), of "''break''" "''break''" "[]" "[show_int n]"] show_int_plain [OF assms(3)]
    by (auto simp: handlerCommands_def command_names_def)
  have "in64 n"
    using assms(3,4) by (simp add: in64_def)
  then have "run_action L w info (loc # locs) ''break'' p (start_context h) =
      (Ok (), on_breakpoints (\<lambda>_. b) (start_context h))"
    using assms(5) by (simp add: run_action_def breakAction_def First_def p(2) parse_int64_show_int
        add_breakpoint_def NewLineBreakpoint_def)
  from dispatch_Invoke [OF _ _ p(1) this] show ?thesis
    by (simp add: shell_round_def readLine_def assms(2) on_breakpoints_def)
qed

text \<open>A line breakpoint of the store stops every later step that covers its line, in either mode.\<close>

lemma line_breakpoint_stops:
  assumes "Get (h_breakpoints h) k = Some (LineBp f n)" "\<not> h_disableBreakpoints h"
    and "\<exists>l \<in> set locs. si_filename (loc_source l) = f \<and> (\<exists>r \<in> set (loc_ranges l). covers r n)"
  shows "stops_at (BreakEachVertex h mode) info locs \<and> hits_key (BreakEachVertex h mode) k info locs"
proof -
  have "line_hits f n locs \<noteq> []"
    using assms(3) line_hits_empty_iff [of f n locs] by blast
  then have "hits_key (BreakEachVertex h mode) k info locs"
    using assms(1) by (simp add: hits_key_def isTarget_line BreakEachVertex_def del: isTarget.simps)
  moreover have "locs \<noteq> []" "\<not> h_disableBreakpoints (BreakEachVertex h mode)"
    using assms(2,3) by (auto simp: BreakEachVertex_def)
  ultimately show ?thesis
    using hits_key_stops by blast
qed

text \<open>
  C6. \<open>break N\<close> takes effect: after it, at any later step whose location in the same file
  covers line \<open>N\<close>, the handler stops, whatever the mode, and reports the new breakpoint.
\<close>

theorem break_command_stops_later:
  assumes "handler_inv h" "h_disableBreakpoints h = False" "bp_index (h_breakpoints h) < 2 ^ 63 - 1"
    and "cli_ok (lb_run L)" "lb_split L ln = Inr [''break'', show_int n]" "0 \<le> n" "n < 2 ^ 63"
  shows "\<exists>h' s'. shell_round L info (loc # locs) (Line ln None, w) (h, s) = (None, h', s') \<and> handler_inv h' \<and>
    (\<exists>k. \<forall>info2 locs2 mode. (\<exists>l \<in> set locs2. si_filename (loc_source l) = si_filename (loc_source loc) \<and>
             (\<exists>r \<in> set (loc_ranges l). covers r n)) \<longrightarrow>
         stops_at (BreakEachVertex h' mode) info2 locs2 \<and>
         hits_key (BreakEachVertex h' mode) k info2 locs2)"
proof -
  let ?b = "h_breakpoints h"
  have inv: "bps_inv ?b"
    using assms(1) by (simp add: handler_inv_def)
  obtain b where b: "Add ?b [] (LineBp (si_filename (loc_source loc)) n) = (b, Inr (show_int (bp_index ?b)))" "bps_inv b"
      "Get b (show_int (bp_index ?b)) = Some (LineBp (si_filename (loc_source loc)) n)"
    using bps.add_anon [OF inv assms(3), of "LineBp (si_filename (loc_source loc)) n"] by auto
  let ?h = "h\<lparr>h_breakpoints := b\<rparr>"
  have run: "\<exists>s'. shell_round L info (loc # locs) (Line ln None, w) (h, s) = (None, ?h, s')"
    using assms(4-7) b(1) by (rule break_command_adds)
  have inv': "handler_inv ?h"
    using b(2) by (simp add: handler_inv_def)
  have "Get (h_breakpoints ?h) (show_int (bp_index ?b)) = Some (LineBp (si_filename (loc_source loc)) n)"
    "\<not> h_disableBreakpoints ?h"
    using b(3) assms(2) by simp_all
  note stops = line_breakpoint_stops [OF this]
  obtain s' where "shell_round L info (loc # locs) (Line ln None, w) (h, s) = (None, ?h, s')"
    using run by blast
  then show ?thesis
  proof (intro exI conjI allI impI)
    show "handler_inv ?h"
      by (rule inv')
    fix info2 mode and locs2 :: "location list"
    assume "\<exists>l \<in> set locs2. si_filename (loc_source l) = si_filename (loc_source loc) \<and>
             (\<exists>r \<in> set (loc_ranges l). covers r n)"
    note at = stops [OF this]
    show "stops_at (BreakEachVertex ?h mode) info2 locs2"
      by (rule at [THEN conjunct1])
    show "hits_key (BreakEachVertex ?h mode) (show_int (bp_index ?b)) info2 locs2"
      by (rule at [THEN conjunct2])
  qed
qed

theorem break_command_stops_later_witness:
  "\<exists>h' s'. shell_round simple_libs (sample_status None) sample_locs (Line ''break 2'' None, sample_world)
       (sample_handler, sample_shell [] []) = (None, h', s') \<and>
     stops_at (BreakEachVertex h' False) (sample_status None) sample_locs"
proof -
  have inv: "handler_inv sample_handler" "h_disableBreakpoints sample_handler = False"
    "bp_index (h_breakpoints sample_handler) < 2 ^ 63 - 1"
    by (simp_all add: sample_handler_def handler_inv_def)
  have cli: "cli_ok (lb_run simple_libs)"
    using simple_run_ok by (simp add: simple_libs_def)
  have split: "lb_split simple_libs ''break 2'' = Inr [''break'', show_int 2]"
    by code_simp
  have covered: "\<exists>l \<in> set sample_locs. si_filename (loc_source l) =
      si_filename (loc_source (hd sample_locs)) \<and> (\<exists>r \<in> set (loc_ranges l). covers r 2)"
    by (simp add: sample_locs_def covers_def)
  have locs: "sample_locs = hd sample_locs # []"
    by (simp add: sample_locs_def)
  show ?thesis
    using break_command_stops_later [OF inv cli split, of "sample_status None" "hd sample_locs" "[]"
        sample_world "sample_shell [] []"] covered locs
    by fastforce
qed

text \<open>
  C24. At a step that has a location and a result registered for every mount of its operation,
  no input makes the shell panic, provided that each line of it that comes to \<open>exec\<close> finds a
  terminal and that each line that comes to \<open>log\<close> asks for a number of lines for which a ring
  can be made.
\<close>

theorem shell_never_panics:
  assumes "mounts_registered info" "locs \<noteq> []" "can_run_all L (sh_input s)"
  shows "no_panic (fst (breakHandler L order info locs hits (h, s)))"
  using shell_loop_no_panic [OF assms] by (auto simp: breakHandler_def Let_def split: prod.splits)

theorem shell_never_panics_witness:
  "no_panic (fst (breakHandler flag_libs [] (sample_status None) sample_locs []
     (sample_handler, sample_shell [] [''break 2'', ''exec ls'', ''log -n 5'', ''list'', ''exit''])))"
proof (rule shell_never_panics)
  show "can_run_all flag_libs (sh_input (sample_shell [] [''break 2'', ''exec ls'', ''log -n 5'', ''list'', ''exit'']))"
    using flag_libs_log by (simp add: sample_shell_def can_run_all_def flag_libs_split)
qed (simp_all add: mounts_registered_def sample_status_def sample_locs_def)

text \<open>
  Without flags \<open>exec\<close> runs its words, or \<open>/bin/sh\<close>, on a terminal with the standard input
  in the final state of the step and without a debug image; \<open>list\<close> prints three lines around
  each location, and \<open>log\<close> the last ten lines of the build output.
\<close>

theorem plain_commands_use_defaults:
  assumes cli: "cli_ok (lb_run L)" and words: "\<forall>a \<in> set args. take 1 a \<noteq> ''-''"
  shows "\<exists>pe pl pg. lb_run L handlerCommands (''exec'' # args) = Invoke ''exec'' pe \<and>
      lb_run L handlerCommands (''list'' # args) = Invoke ''list'' pl \<and>
      lb_run L handlerCommands (''log'' # args) = Invoke ''log'' pg \<and>
      run_action L w info locs ''exec'' pe hx =
        (case execAction (w_exec w) (w_wait w) (lb_image L) info
                \<lparr>xf_args = args, xf_i = True, xf_tty = True, xf_image = False, xf_mountroot = ''/debugroot'',
                 xf_init_state = False, xf_env = [], xf_workdir = []\<rparr> of
           (r, effs) \<Rightarrow> (r, say (map ExecDid effs) hx)) \<and>
      run_action L w info locs ''list'' pl hx =
        (Ok (), say (map Listed (printLines (w_order w) (h_breakpoints (hx_handler hx)) locs 3 3 False)) hx) \<and>
      run_action L w info locs ''log'' pg hx =
        (case logAction False False 10 (w_progress w) (w_log_file w) of (t, r) \<Rightarrow> (r, say [LogText t] hx))"
proof -
  obtain pe where pe: "lb_run L handlerCommands (''exec'' # args) = Invoke ''exec'' pe" "pa_args pe = args"
    "list_all (reads_default pe) exec_flag_specs"
    using cli_ok_command [OF cli _ words, of "''exec''" "''exec''" exec_flag_specs]
    by (auto simp: handlerCommands_def command_names_def)
  obtain pl where pl: "lb_run L handlerCommands (''list'' # args) = Invoke ''list'' pl"
    "list_all (reads_default pl) list_flag_specs"
    using cli_ok_command [OF cli _ words, of "''list''" "''list''" list_flag_specs]
    by (auto simp: handlerCommands_def command_names_def)
  obtain pg where pg: "lb_run L handlerCommands (''log'' # args) = Invoke ''log'' pg"
    "list_all (reads_default pg) log_flag_specs"
    using cli_ok_command [OF cli _ words, of "''log''" "''log''" log_flag_specs]
    by (auto simp: handlerCommands_def command_names_def)
  from pe pl pg show ?thesis
    by (intro exI [of _ pe] exI [of _ pl] exI [of _ pg])
      (auto simp: run_action_def exec_command_def list_command_def log_command_def exec_flag_specs_def
        list_flag_specs_def log_flag_specs_def reads_default_def flag_key_def listAction_def list_window_def
        defaultListRange_def Let_def)
qed

theorem plain_commands_use_defaults_witness:
  "\<exists>pl. lb_run simple_libs handlerCommands [''list''] = Invoke ''list'' pl \<and>
     run_action simple_libs sample_world (sample_status None) sample_locs ''list'' pl (start_context sample_handler) =
       (Ok (), say (map Listed (printLines (w_order sample_world) NewBreakpoints sample_locs 3 3 False))
                 (start_context sample_handler))"
proof -
  have "cli_ok (lb_run simple_libs)"
    using simple_run_ok by (simp add: simple_libs_def)
  from plain_commands_use_defaults [OF this, of "[]" sample_world "sample_status None" sample_locs
      "start_context sample_handler"] show ?thesis
    by (auto simp: sample_handler_def)
qed

end
