(* ===== verification/DapServer.thy ===== *)
theory DapServer
  imports Shell Launcher
begin

text \<open>
  The debug adapter: the requests of \<open>pkg/dap/dap.go\<close> and the state of
  \<open>pkg/dap/debugger.go\<close> behind them. Each request is handled by a function from the state to
  what is done (messages sent, in order) and the new state. The server runs requests
  concurrently; the blocking exchange with the stopped build is in \<open>DapSession\<close>, and the
  container that \<open>exec\<close> starts in \<open>DapExec\<close>. The decoding of messages is the library's: a
  request comes with its sequence number, its command and its arguments.
\<close>

section \<open>Requests and messages\<close>

record launch_config =
  lc_program :: string
  lc_noDebug :: bool
  lc_stopOnEntry :: bool
  lc_target :: string
  lc_build_args :: "string list"
  lc_ssh :: "string list"
  lc_secrets :: "string list"
  lc_image :: string

datatype unsupported =
    Attach | Terminate | Restart | SetFunctionBreakpoints | SetExceptionBreakpoints
  | StepIn | StepOut | StepBack | ReverseContinue | RestartFrame | Goto | Pause
  | SetVariable | SetExpression | Source | TerminateThreads | StepInTargets | GotoTargets
  | Completions | ExceptionInfo | LoadedSources | DataBreakpointInfo | SetDataBreakpoints
  | ReadMemory | Disassemble | Cancel | BreakpointLocations

datatype request_body =
    Initialize
  | Launch "go_err + launch_config"
  | Disconnect
  | SetBreakpoints string "int list"
  | ConfigurationDone
  | Continue
  | Next
  | StackTrace
  | Scopes
  | Variables int int
  | Threads
  | Evaluate string string
  | Unsupported unsupported
  | NotHandled

record request =
  rq_seq :: int
  rq_command :: string
  rq_body :: request_body

record dap_breakpoint =
  db_id :: int
  db_source :: string
  db_line :: int
  db_verified :: bool

record stack_frame =
  sf_id :: int
  sf_source_name :: string
  sf_source_path :: string
  sf_line :: int
  sf_end_line :: int
  sf_name :: string

datatype response_body =
    Capabilities "(string \<times> bool) list"
  | NoBody
  | BreakpointsSet "dap_breakpoint list"
  | Frames "stack_frame list" int
  | ScopeList "(string \<times> int) list"
  | VariableList "(string \<times> string) list"
  | ThreadList "(int \<times> string) list"
  | EvaluateResult "shell_out list"

datatype dap_event =
    Initialized
  | Thread string
  | Stopped string "int list"
  | Output string
  | Terminated
  | Exited

record response_head =
  rh_request_seq :: int
  rh_command :: string
  rh_success :: bool

datatype message =
    Response response_head response_body
  | ErrorResponse response_head string go_err int bool
  | Event dap_event
  | RunInTerminal "string list" string

text \<open>
  What handling a request does: it sends, sends to the waiting breakpoint handler, gives
  the root back, cancels the build, or ends the process.
\<close>

datatype act = Send message | Mes string | CleanupRoot | CancelTasks | CancelBuild | Exit

definition newResponse :: "int \<Rightarrow> string \<Rightarrow> response_head" where
  "newResponse requestSeq command = \<lparr>rh_request_seq = requestSeq, rh_command = command, rh_success = True\<rparr>"

definition respond :: "request \<Rightarrow> response_body \<Rightarrow> act" where
  "respond rq b = Send (Response (newResponse (rq_seq rq) (rq_command rq)) b)"

section \<open>Error responses\<close>

text \<open>The text of a response is kept as the format and what it is given.\<close>

definition unsupportedError :: int where "unsupportedError = 1000"
definition failedError :: int where "failedError = 1001"
definition unknownError :: int where "unknownError = 9999"

definition errorMessage :: "(int \<times> string) list" where
  "errorMessage = [(unsupportedError, ''unsupported''), (failedError, ''failed''), (unknownError, ''unknown'')]"

definition sendErrorResponse :: "request \<Rightarrow> int \<Rightarrow> go_err \<Rightarrow> bool \<Rightarrow> act" where
  "sendErrorResponse rq errID message showUser =
     (let (ident, summary) = (case map_of errorMessage errID of
                                Some m \<Rightarrow> (errID, m)
                              | None \<Rightarrow> (unknownError, the (map_of errorMessage unknownError)))
      in Send (ErrorResponse ((newResponse (rq_seq rq) (rq_command rq))\<lparr>rh_success := False\<rparr>)
                 summary message ident showUser))"

definition sendUnsupportedResponse :: "request \<Rightarrow> string \<Rightarrow> act" where
  "sendUnsupportedResponse rq message = sendErrorResponse rq unsupportedError (Errorf message []) False"

primrec unsupported_text :: "unsupported \<Rightarrow> string" where
  "unsupported_text Attach = ''AttachRequest unsupported''"
| "unsupported_text Terminate = ''TerminateRequest unsupported''"
| "unsupported_text Restart = ''RestartRequest unsupported''"
| "unsupported_text SetFunctionBreakpoints = ''FunctionBreakpointsRequest unsupported''"
| "unsupported_text SetExceptionBreakpoints = ''Request unsupported''"
| "unsupported_text StepIn = ''StepInRequest unsupported''"
| "unsupported_text StepOut = ''StepOutRequest unsupported''"
| "unsupported_text StepBack = ''StepBackRequest unsupported''"
| "unsupported_text ReverseContinue = ''ReverseContinueRequest unsupported''"
| "unsupported_text RestartFrame = ''RestartFrameRequest unsupported''"
| "unsupported_text Goto = ''GotoRequest unsupported''"
| "unsupported_text Pause = ''PauseRequest unsupported''"
| "unsupported_text SetVariable = ''SetVariablesRequest unsupported''"
| "unsupported_text SetExpression = ''SetExpressionRequest unsupported''"
| "unsupported_text Source = ''SourceRequest unsupported''"
| "unsupported_text TerminateThreads = ''TerminateRequest unsupported''"
| "unsupported_text StepInTargets = ''StepInTargetsRequest unsupported''"
| "unsupported_text GotoTargets = ''GotoTargetsRequest unsupported''"
| "unsupported_text Completions = ''CompletionsRequest unsupported''"
| "unsupported_text ExceptionInfo = ''ExceptionInfoRequest unsupported''"
| "unsupported_text LoadedSources = ''LoadedSourcesRequest unsupported''"
| "unsupported_text DataBreakpointInfo = ''DataBreakpointInfoRequest unsupported''"
| "unsupported_text SetDataBreakpoints = ''SetDataBreakpointsRequest unsupported''"
| "unsupported_text ReadMemory = ''ReadMemoryRequest unsupported''"
| "unsupported_text Disassemble = ''DisassembleRequest unsupported''"
| "unsupported_text Cancel = ''CancelRequest unsupported''"
| "unsupported_text BreakpointLocations = ''BreakpointLocationsRequest unsupported''"

section \<open>The debugger\<close>

text \<open>
  The state of the debugger. \<open>dd_bctx\<close> is the last break: the status, locations and hits,
  and (behind \<open>Handler\<close>) the mode of the build's handler, \<open>dd_each\<close>. The breakpoints are
  the ones the handler looks at.
\<close>

record break_context =
  bc_info :: registered_status
  bc_locs :: "location list"
  bc_hits :: hits

record debugger =
  dd_bps :: breakpoints
  dd_lconfig :: "launch_config option"
  dd_started :: bool
  dd_bctx :: "break_context option"
  dd_each :: bool
  dd_cleanupAll :: bool

definition newDebugger :: "bool \<Rightarrow> go_err + debugger" where
  "newDebugger cleanupAll =
     (case Add NewBreakpoints ''on-fail'' NewOnFailBreakpoint of
        (_, Inl e) \<Rightarrow> Inl e
      | (bp, Inr _) \<Rightarrow>
          Inr \<lparr>dd_bps = bp, dd_lconfig = None, dd_started = False, dd_bctx = None, dd_each = False,
               dd_cleanupAll = cleanupAll\<rparr>)"

definition parseDAPSolveOpt :: "build_lib \<Rightarrow> launch_config \<Rightarrow> go_err + solve_opt" where
  "parseDAPSolveOpt bl cfg =
     (if lc_program cfg = [] then Inl (Errorf ''program must be specified'' [])
      else
        (case Split (lc_program cfg) of
           (dir, file) \<Rightarrow>
             (case bl_ParseOpt bl (option_strings (Some file) (lc_target cfg) (lc_build_args cfg)) of
                Inl e \<Rightarrow> Inl e
              | Inr attrs \<Rightarrow>
                  (case bl_ParseOutput bl [''type=image''] of
                     Inl e \<Rightarrow> Inl e
                   | Inr exports \<Rightarrow>
                       (case session_providers bl (lc_ssh cfg) (lc_secrets cfg) of
                          Inl e \<Rightarrow> Inl e
                        | Inr session \<Rightarrow>
                            Inr \<lparr>so_exports = exports, so_local_dirs = [(''context'', dir), (''dockerfile'', dir)],
                                 so_frontend_attrs = attrs, so_session = session, so_cache_imports = []\<rparr>)))))"

text \<open>
  \<open>launch\<close> up to the start of the build, which gets the options and the debug configuration.
\<close>

record dap_build =
  bu_solve_opt :: solve_opt
  bu_image :: string
  bu_config :: debug_config
  bu_cleanupAll :: bool

definition dap_launch :: "build_lib \<Rightarrow> launch_config \<Rightarrow> bool \<Rightarrow> bool \<Rightarrow> debugger \<Rightarrow> (go_err + dap_build) \<times> debugger" where
  "dap_launch bl cfg stopOnEntry disableBreakpoints d =
     (if dd_lconfig d \<noteq> None then (Inl (Errorf ''multi session unsupported'' []), d)
      else
        (let d1 = d\<lparr>dd_started := True\<rparr>
         in case parseDAPSolveOpt bl cfg of
              Inl e \<Rightarrow> (Inl e, d1)
            | Inr so \<Rightarrow>
                (Inr \<lparr>bu_solve_opt = so, bu_image = lc_image cfg,
                      bu_config = \<lparr>dc_breakpoints = Some (dd_bps d1), dc_stopOnEntry = stopOnEntry,
                                   dc_disableBreakpoints = disableBreakpoints\<rparr>,
                      bu_cleanupAll = dd_cleanupAll d1\<rparr>,
                 d1\<lparr>dd_lconfig := Some cfg\<rparr>)))"

definition doContinue :: "debugger \<Rightarrow> act list \<times> debugger" where
  "doContinue d = (if dd_bctx d \<noteq> None then ([Mes ''continue''], d\<lparr>dd_each := False\<rparr>) else ([], d))"

definition doNext :: "debugger \<Rightarrow> act list \<times> debugger" where
  "doNext d = (if dd_bctx d \<noteq> None then ([Mes ''next''], d\<lparr>dd_each := True\<rparr>) else ([], d))"

text \<open>The identifiers of the hit breakpoints: the numeric keys, in the order of the map.\<close>

definition hit_ids :: "string list \<Rightarrow> int list" where
  "hit_ids keys = List.map_filter parse_int64 keys"

definition stopped_event :: "int list \<Rightarrow> message" where
  "stopped_event bps = Event (Stopped (if length bps = 0 then ''step'' else ''breakpoint'') bps)"

text \<open>
  The debugger's breakpoint handler up to the point where it waits: the identifiers go to
  the client as a stopped event (through the channel \<open>stoppedCh\<close>), and the break is recorded.
\<close>

definition dap_breakHandler ::
  "registered_status \<Rightarrow> location list \<Rightarrow> hits \<Rightarrow> debugger \<Rightarrow> act list \<times> debugger" where
  "dap_breakHandler info locs hits d =
     ([Send (stopped_event (hit_ids (map fst hits)))],
      d\<lparr>dd_bctx := Some \<lparr>bc_info = info, bc_locs = locs, bc_hits = hits\<rparr>\<rparr>)"

section \<open>Requests\<close>

text \<open>The flags of the capabilities; the lists among them are empty.\<close>

definition capabilities :: "(string \<times> bool) list" where
  "capabilities =
     [(''SupportsConfigurationDoneRequest'', True),
      (''SupportsFunctionBreakpoints'', False),
      (''SupportsConditionalBreakpoints'', False),
      (''SupportsHitConditionalBreakpoints'', False),
      (''SupportsEvaluateForHovers'', False),
      (''SupportsStepBack'', False),
      (''SupportsSetVariable'', False),
      (''SupportsRestartFrame'', False),
      (''SupportsGotoTargetsRequest'', False),
      (''SupportsStepInTargetsRequest'', False),
      (''SupportsCompletionsRequest'', False),
      (''SupportsModulesRequest'', False),
      (''SupportsRestartRequest'', False),
      (''SupportsExceptionOptions'', False),
      (''SupportsValueFormattingOptions'', False),
      (''SupportsExceptionInfoRequest'', False),
      (''SupportTerminateDebuggee'', False),
      (''SupportSuspendDebuggee'', False),
      (''SupportsDelayedStackTraceLoading'', False),
      (''SupportsLoadedSourcesRequest'', False),
      (''SupportsLogPoints'', False),
      (''SupportsTerminateThreadsRequest'', False),
      (''SupportsSetExpression'', False),
      (''SupportsTerminateRequest'', False),
      (''SupportsDataBreakpoints'', False),
      (''SupportsReadMemoryRequest'', False),
      (''SupportsWriteMemoryRequest'', False),
      (''SupportsDisassembleRequest'', False),
      (''SupportsCancelRequest'', False),
      (''SupportsBreakpointLocationsRequest'', False),
      (''SupportsClipboardContext'', False),
      (''SupportsSteppingGranularity'', False),
      (''SupportsInstructionBreakpoints'', False),
      (''SupportsExceptionFilterOptions'', False)]"

definition onInitializeRequest :: "request \<Rightarrow> act list" where
  "onInitializeRequest rq = [respond rq (Capabilities capabilities), Send (Event Initialized)]"

text \<open>
  The server's pointer to the debugger is nil once a disconnect has taken the debugger away
  (until the process ends), so a request gets \<open>None\<close> then.

  \<open>launchDebugger\<close> waits until the build has started or failed to start; the thread event
  is sent by the hook that reports the start.
\<close>

definition launchDebugger ::
  "build_lib \<Rightarrow> launch_config \<Rightarrow> debugger option \<Rightarrow> (go_err + act list) \<times> debugger option" where
  "launchDebugger bl cfg sd =
     (if lc_program cfg = [] then (Inl (Errorf ''launch error: program must be specified'' []), sd)
      else
        (case sd of
           None \<Rightarrow> (Inl (Errorf ''launch error: debugger is not available'' []), sd)
         | Some d \<Rightarrow>
             (case dap_launch bl cfg (lc_stopOnEntry cfg) (lc_noDebug cfg) d of
                (Inl e, d') \<Rightarrow> (Inl e, Some d')
              | (Inr _, d') \<Rightarrow> (Inr [Send (Event (Thread ''started''))], Some d'))))"

definition onLaunchRequest ::
  "build_lib \<Rightarrow> request \<Rightarrow> go_err + launch_config \<Rightarrow> debugger option \<Rightarrow> act list \<times> debugger option" where
  "onLaunchRequest bl rq unmarshalled sd =
     (case unmarshalled of
        Inl e \<Rightarrow> ([sendErrorResponse rq failedError (Errvf ''failed to launch: %v'' e) True], sd)
      | Inr cfg \<Rightarrow>
          (case launchDebugger bl cfg sd of
             (Inl e, sd') \<Rightarrow> ([sendErrorResponse rq failedError (Errvf ''failed to launch: %v'' e) True], sd')
           | (Inr acts, sd') \<Rightarrow> (acts @ [respond rq NoBody], sd')))"

text \<open>The hook that runs when the build has ended, before the launch's error is looked at.\<close>

definition onFinishHook :: "act list" where
  "onFinishHook = [Send (Event (Thread ''exited'')), CleanupRoot, Send (Event Terminated), Send (Event Exited)]"

definition onDisconnectRequest :: "request \<Rightarrow> debugger option \<Rightarrow> act list \<times> debugger option" where
  "onDisconnectRequest rq sd =
     (CancelTasks # (if sd \<noteq> None then [CancelBuild] else []) @ [respond rq NoBody, Exit], None)"

text \<open>
  \<open>onSetBreakpointsRequest\<close>: the store is cleared for all sources, the on-fail breakpoint
  is set again, and the loop adds the lines.
\<close>

primrec set_lines_loop ::
  "string \<Rightarrow> int list \<Rightarrow> breakpoints \<times> dap_breakpoint list \<Rightarrow> breakpoints \<times> dap_breakpoint list" where
  "set_lines_loop name [] st = st"
| "set_lines_loop name (l # ls) st =
     (case Add (fst st) [] (NewLineBreakpoint name l) of
        (bps, Inl e) \<Rightarrow> set_lines_loop name ls (bps, snd st)
      | (bps, Inr key) \<Rightarrow>
          (case parse_int64 key of
             None \<Rightarrow> set_lines_loop name ls (bps, snd st)
           | Some keyI \<Rightarrow>
               set_lines_loop name ls
                 (bps, snd st @ [\<lparr>db_id = keyI, db_source = name, db_line = l, db_verified = True\<rparr>])))"

definition onSetBreakpointsRequest :: "request \<Rightarrow> string \<Rightarrow> int list \<Rightarrow> debugger \<Rightarrow> act list \<times> debugger" where
  "onSetBreakpointsRequest rq name lines d =
     (let cleared = fst (Add (ClearAll (dd_bps d)) ''on-fail'' NewOnFailBreakpoint)
      in case set_lines_loop name lines (cleared, []) of
           (bps, set_bps) \<Rightarrow> ([respond rq (BreakpointsSet set_bps)], d\<lparr>dd_bps := bps\<rparr>))"

definition onContinueRequest :: "request \<Rightarrow> debugger \<Rightarrow> act list \<times> debugger" where
  "onContinueRequest rq d = (case doContinue d of (acts, d') \<Rightarrow> (respond rq NoBody # acts, d'))"

definition onNextRequest :: "request \<Rightarrow> debugger \<Rightarrow> act list \<times> debugger" where
  "onNextRequest rq d = (case doNext d of (acts, d') \<Rightarrow> (respond rq NoBody # acts, d'))"

text \<open>The lines of the hits, and if there are none those of all locations; the first is shown.\<close>

definition trace_lines :: "break_context \<Rightarrow> pb_range list" where
  "trace_lines b =
     (let hit_lines = concat (map (\<lambda>(k, i). concat (map loc_ranges (bi_hits i))) (bc_hits b))
      in if length hit_lines = 0 then concat (map loc_ranges (bc_locs b)) else hit_lines)"

definition onStackTraceRequest :: "request \<Rightarrow> debugger \<Rightarrow> act list" where
  "onStackTraceRequest rq d =
     (case (dd_bctx d, dd_lconfig d) of
        (Some b, Some cfg) \<Rightarrow>
          (let lines = trace_lines b
           in if 0 < length lines
              then [respond rq (Frames
                     [\<lparr>sf_id = 0, sf_source_name = Base (lc_program cfg), sf_source_path = lc_program cfg,
                       sf_line = start_line (lines ! 0), sf_end_line = end_line (lines ! 0),
                       sf_name = (if rs_name (bc_info b) \<noteq> [] then rs_name (bc_info b) else ''instruction'')\<rparr>] 1)]
              else [respond rq (Frames [] 0)])
      | _ \<Rightarrow> [respond rq (Frames [] 0)])"

definition onScopesRequest :: "request \<Rightarrow> act list" where
  "onScopesRequest rq = [respond rq (ScopeList [(''Environment Variables'', 1)])]"

definition env_variable :: "string \<Rightarrow> (string \<times> string) list" where
  "env_variable e =
     (case splitN2 CHR ''='' e of
        k # v # _ \<Rightarrow> [(k, v)]
      | [k] \<Rightarrow> [(k, [])]
      | [] \<Rightarrow> [])"

definition onVariablesRequest :: "request \<Rightarrow> int \<Rightarrow> int \<Rightarrow> debugger \<Rightarrow> act list" where
  "onVariablesRequest rq start cnt d =
     (case dd_bctx d of
        None \<Rightarrow> [respond rq (VariableList [])]
      | Some b \<Rightarrow>
          (let variables = (case op_kind_of (rs_op (bc_info b)) of
                              Op_Exec ex \<Rightarrow> concat (map env_variable (ex_env ex))
                            | Op_Other \<Rightarrow> []);
               from_start = (if 0 < start
                             then (if start < int (length variables) then drop (nat start) variables else [])
                             else variables);
               page = (if 0 < cnt
                       then (if cnt < int (length from_start) then take (nat cnt) from_start else from_start)
                       else from_start)
           in [respond rq (VariableList page)]))"

definition onThreadsRequest :: "request \<Rightarrow> act list" where
  "onThreadsRequest rq = [respond rq (ThreadList [(1, ''build'')])]"

text \<open>
  \<open>onEvaluateRequest\<close>: of the shell's commands only \<open>exec\<close>. \<open>run_exec\<close> is its action
  (\<open>DapExec\<close>): the arguments and directory of the request that attaches a terminal, which is
  sent after the response, or its error, or a panic, after which nothing is sent. The output
  is that of the library and the text of the error.
\<close>

definition replCommands :: "command_spec list" where
  "replCommands =
     [\<lparr>cs_name = ''exec'', cs_aliases = [''e''], cs_flags = exec_flag_specs\<rparr>]"

type_synonym exec_action = "break_context \<Rightarrow> parsed \<Rightarrow> (string list \<times> string) go_result"

definition evaluated :: "request \<Rightarrow> shell_out list \<Rightarrow> (string list \<times> string) option \<Rightarrow> unit go_result \<times> act list" where
  "evaluated rq out callback =
     (Ok (), respond rq (EvaluateResult out) #
             (case callback of None \<Rightarrow> [] | Some (args, cwd) \<Rightarrow> [Send (RunInTerminal args cwd)]))"

definition onEvaluateRequest ::
  "libs \<Rightarrow> exec_action \<Rightarrow> request \<Rightarrow> string \<Rightarrow> string \<Rightarrow> debugger option \<Rightarrow> unit go_result \<times> act list" where
  "onEvaluateRequest L run_exec rq ctx expr sd =
     (if ctx \<noteq> ''repl''
      then (Ok (), [sendUnsupportedResponse rq ''evaluating non-repl input is unsupported as of now''])
      else (case sd of
         None \<Rightarrow> (Panic ''nil pointer dereference'', [])
       | Some d \<Rightarrow>
           (case dd_bctx d of
              None \<Rightarrow> (Ok (), [sendErrorResponse rq failedError (Errorf ''no breakpoint available'' []) True])
            | Some b \<Rightarrow>
                (case lb_split L expr of
                   Inl e \<Rightarrow> evaluated rq [] None
                 | Inr args \<Rightarrow>
                     if args = [] \<or> hd args = [] then evaluated rq [] None
                     else (case lb_run L replCommands args of
                             Invoke name p \<Rightarrow>
                               (if name = ''exec''
                                then (case run_exec b p of
                                        Ok callback \<Rightarrow> evaluated rq [] (Some callback)
                                      | Fail e \<Rightarrow> evaluated rq [ErrorText e] None
                                      | Panic m \<Rightarrow> (Panic m, []))
                                else evaluated rq [] None)
                           | NoAction \<Rightarrow> evaluated rq (help_output L replCommands args) None
                           | CliError e \<Rightarrow> evaluated rq (help_output L replCommands args @ [ErrorText e]) None)))))"

text \<open>
  \<open>Server.handle\<close>: how the handling ends, what it has done until then, and the pointer to the
  debugger. \<open>with_debugger before f\<close>: after \<open>before\<close>, \<open>f\<close> uses the debugger, a panic when
  there is none.
\<close>

definition with_debugger ::
  "act list \<Rightarrow> (debugger \<Rightarrow> act list \<times> debugger) \<Rightarrow> debugger option \<Rightarrow> unit go_result \<times> act list \<times> debugger option" where
  "with_debugger before f sd =
     (case sd of
        None \<Rightarrow> (Panic ''nil pointer dereference'', before, None)
      | Some d \<Rightarrow> (case f d of (acts, d') \<Rightarrow> (Ok (), acts, Some d')))"

definition dap_handle ::
  "libs \<Rightarrow> build_lib \<Rightarrow> exec_action \<Rightarrow> request \<Rightarrow> debugger option \<Rightarrow> unit go_result \<times> act list \<times> debugger option" where
  "dap_handle L bl run_exec rq sd =
     (case rq_body rq of
        Initialize \<Rightarrow> (Ok (), onInitializeRequest rq, sd)
      | Launch cfg \<Rightarrow> (Ok (), onLaunchRequest bl rq cfg sd)
      | Disconnect \<Rightarrow> (Ok (), onDisconnectRequest rq sd)
      | SetBreakpoints name lines \<Rightarrow> with_debugger [] (onSetBreakpointsRequest rq name lines) sd
      | ConfigurationDone \<Rightarrow> (Ok (), [respond rq NoBody], sd)
      | Continue \<Rightarrow> with_debugger [respond rq NoBody] (onContinueRequest rq) sd
      | Next \<Rightarrow> with_debugger [respond rq NoBody] (onNextRequest rq) sd
      | StackTrace \<Rightarrow> with_debugger [] (\<lambda>d. (onStackTraceRequest rq d, d)) sd
      | Scopes \<Rightarrow> (Ok (), onScopesRequest rq, sd)
      | Variables start cnt \<Rightarrow> with_debugger [] (\<lambda>d. (onVariablesRequest rq start cnt d, d)) sd
      | Threads \<Rightarrow> (Ok (), onThreadsRequest rq, sd)
      | Evaluate ctx expr \<Rightarrow>
          (case onEvaluateRequest L run_exec rq ctx expr sd of (r, acts) \<Rightarrow> (r, acts, sd))
      | Unsupported u \<Rightarrow> (Ok (), [sendUnsupportedResponse rq (unsupported_text u)], sd)
      | NotHandled \<Rightarrow> (Ok (), [], sd))"

section \<open>Setting breakpoints\<close>

text \<open>The heads of the responses among the acts.\<close>

definition answer_of :: "act \<Rightarrow> response_head option" where
  "answer_of a =
     (case a of
        Send (Response h _) \<Rightarrow> Some h
      | Send (ErrorResponse h _ _ _ _) \<Rightarrow> Some h
      | _ \<Rightarrow> None)"

definition answers :: "act list \<Rightarrow> response_head list" where
  "answers = List.map_filter answer_of"

lemma answers_simps [simp]:
  "answers [] = []" "answers (a # as) = (case answer_of a of None \<Rightarrow> [] | Some h \<Rightarrow> [h]) @ answers as"
  "answers (as @ bs) = answers as @ answers bs"
  by (simp_all add: answers_def List.map_filter_def split: option.split)

lemma answer_of_simps [simp]:
  "answer_of (respond rq b) = Some \<lparr>rh_request_seq = rq_seq rq, rh_command = rq_command rq, rh_success = True\<rparr>"
  "answer_of (sendErrorResponse rq e m u) = Some \<lparr>rh_request_seq = rq_seq rq, rh_command = rq_command rq, rh_success = False\<rparr>"
  "answer_of (Mes x) = None" "answer_of CleanupRoot = None" "answer_of CancelTasks = None"
  "answer_of CancelBuild = None" "answer_of Exit = None" "answer_of (Send (Event ev)) = None"
  "answer_of (Send (RunInTerminal as c)) = None"
  by (simp_all add: answer_of_def respond_def newResponse_def sendErrorResponse_def split: prod.split)

lemma set_lines_loop_eq:
  assumes "bps_inv b" "bp_index b + int (length ls) < 2 ^ 63"
  shows "\<exists>b'. set_lines_loop name ls (b, acc) =
      (b', acc @ map (\<lambda>i. \<lparr>db_id = bp_index b + int i, db_source = name, db_line = ls ! i, db_verified = True\<rparr>)
             [0..<length ls]) \<and>
    (\<exists>rs. add_all Add b (map (LineBp name) ls) = (b', rs))"
  using assms
proof (induction ls arbitrary: b acc)
  case (Cons l ls)
  have lt: "bp_index b < 2 ^ 63 - 1"
    using Cons.prems by simp
  obtain b1 where b1: "Add b [] (LineBp name l) = (b1, Inr (show_int (bp_index b)))" "bps_inv b1"
      "bp_index b1 = bp_index b + 1"
    using bps.add_anon [OF Cons.prems(1) lt, of "LineBp name l"] by auto
  have "in64 (bp_index b)"
    using Cons.prems bps_inv_index [OF Cons.prems(1)] by (simp add: in64_def)
  then have "parse_int64 (show_int (bp_index b)) = Some (bp_index b)"
    by (rule parse_int64_show_int)
  moreover have "bp_index b1 + int (length ls) < 2 ^ 63"
    using Cons.prems b1(3) by simp
  note Cons.IH [OF b1(2) this,
      of "acc @ [\<lparr>db_id = bp_index b, db_source = name, db_line = l, db_verified = True\<rparr>]"]
  moreover have "[0..<length (l # ls)] = 0 # map Suc [0..<length ls]"
    by (simp add: map_Suc_upt upt_conv_Cons del: upt_Suc)
  ultimately show ?case
    using b1 by (auto simp: NewLineBreakpoint_def comp_def ac_simps)
qed simp

text \<open>The store after the request: the on-fail breakpoint and one breakpoint for each line.\<close>

definition holds_lines :: "breakpoints \<Rightarrow> string \<Rightarrow> int list \<Rightarrow> bool" where
  "holds_lines b name lines \<longleftrightarrow> bps_inv b \<and> Get b ''on-fail'' = Some OnFail \<and>
     (\<forall>i < length lines. Get b (show_int (int i)) = Some (LineBp name (lines ! i))) \<and>
     (\<forall>k. k \<noteq> ''on-fail'' \<longrightarrow> (\<forall>i < length lines. k \<noteq> show_int (int i)) \<longrightarrow> Get b k = None)"

lemma on_fail_store:
  "\<exists>b. Add (ClearAll b0) ''on-fail'' NewOnFailBreakpoint = (b, Inr ''on-fail'') \<and> bps_inv b \<and> bp_index b = 0 \<and>
       Get b = [''on-fail'' \<mapsto> OnFail]"
  using Add_named [of "''on-fail''" "ClearAll b0" OnFail] store_step_inv [of "ClearAll b0" AddOnFail]
  by (auto simp: NewOnFailBreakpoint_def)

lemma setBreakpoints_eq:
  assumes "int (length lines) < 2 ^ 63"
  shows "\<exists>b. onSetBreakpointsRequest rq name lines d =
      ([respond rq (BreakpointsSet (map (\<lambda>i. \<lparr>db_id = int i, db_source = name, db_line = lines ! i, db_verified = True\<rparr>)
                                      [0..<length lines]))], d\<lparr>dd_bps := b\<rparr>) \<and> holds_lines b name lines"
proof -
  obtain b where b: "Add (ClearAll (dd_bps d)) ''on-fail'' NewOnFailBreakpoint = (b, Inr ''on-fail'')" "bps_inv b"
      "bp_index b = 0" "Get b = [''on-fail'' \<mapsto> OnFail]"
    using on_fail_store by blast
  have len: "bp_index b + int (length lines) < 2 ^ 63"
    using assms b(3) by simp
  obtain b' rs where loop: "set_lines_loop name lines (b, []) =
      (b', map (\<lambda>i. \<lparr>db_id = int i, db_source = name, db_line = lines ! i, db_verified = True\<rparr>) [0..<length lines])"
      "add_all Add b (map (LineBp name) lines) = (b', rs)"
    using set_lines_loop_eq [OF b(2) len, of name "[]"] b(3) by auto
  from bps.add_all_anon [OF b(2), of "map (LineBp name) lines"] len loop(2) b(3,4)
  have "holds_lines b' name lines"
    by (auto simp: holds_lines_def)
  with loop b(1) show ?thesis
    by (intro exI [of _ b']) (simp add: onSetBreakpointsRequest_def Let_def)
qed

section \<open>Capabilities and refused requests\<close>

text \<open>The capability that lets a client send a request, in the protocol; some need none.\<close>

fun capability_of :: "unsupported \<Rightarrow> string option" where
  "capability_of Terminate = Some ''SupportsTerminateRequest''"
| "capability_of Restart = Some ''SupportsRestartRequest''"
| "capability_of SetFunctionBreakpoints = Some ''SupportsFunctionBreakpoints''"
| "capability_of StepBack = Some ''SupportsStepBack''"
| "capability_of ReverseContinue = Some ''SupportsStepBack''"
| "capability_of RestartFrame = Some ''SupportsRestartFrame''"
| "capability_of Goto = Some ''SupportsGotoTargetsRequest''"
| "capability_of GotoTargets = Some ''SupportsGotoTargetsRequest''"
| "capability_of SetVariable = Some ''SupportsSetVariable''"
| "capability_of SetExpression = Some ''SupportsSetExpression''"
| "capability_of TerminateThreads = Some ''SupportsTerminateThreadsRequest''"
| "capability_of StepInTargets = Some ''SupportsStepInTargetsRequest''"
| "capability_of Completions = Some ''SupportsCompletionsRequest''"
| "capability_of ExceptionInfo = Some ''SupportsExceptionInfoRequest''"
| "capability_of LoadedSources = Some ''SupportsLoadedSourcesRequest''"
| "capability_of DataBreakpointInfo = Some ''SupportsDataBreakpoints''"
| "capability_of SetDataBreakpoints = Some ''SupportsDataBreakpoints''"
| "capability_of ReadMemory = Some ''SupportsReadMemoryRequest''"
| "capability_of Disassemble = Some ''SupportsDisassembleRequest''"
| "capability_of Cancel = Some ''SupportsCancelRequest''"
| "capability_of BreakpointLocations = Some ''SupportsBreakpointLocationsRequest''"
| "capability_of _ = None"

section \<open>Properties\<close>

text \<open>
  A client that heeds the capabilities is refused only the requests that need none: every
  refused request with a capability is declared as not supported, and the one capability
  that is declared is of a request that is answered.
\<close>

theorem refused_requests_not_advertised:
  "(case capability_of u of
      None \<Rightarrow> u \<in> {Attach, SetExceptionBreakpoints, StepIn, StepOut, Pause, Source}
    | Some cap \<Rightarrow> map_of capabilities cap = Some False) \<and>
   filter snd capabilities = [(''SupportsConfigurationDoneRequest'', True)] \<and>
   dap_handle L bl run_exec (rq\<lparr>rq_body := ConfigurationDone\<rparr>) d = (Ok (), [respond rq NoBody], d)"
  by (cases u) (simp_all add: capabilities_def dap_handle_def respond_def)

text \<open>
  The two ways in which a handler ends before it answers: its use of the debugger that a
  disconnect has taken away, and a panic of the action of \<open>exec\<close>.
\<close>

definition dies_first :: "libs \<Rightarrow> exec_action \<Rightarrow> request \<Rightarrow> debugger option \<Rightarrow> bool" where
  "dies_first L run_exec rq sd \<longleftrightarrow>
     (case rq_body rq of
        SetBreakpoints name lines \<Rightarrow> sd = None
      | StackTrace \<Rightarrow> sd = None
      | Variables start cnt \<Rightarrow> sd = None
      | Evaluate ctx expr \<Rightarrow>
          ctx = ''repl'' \<and>
          (sd = None \<or>
           (\<exists>d b args p m. sd = Some d \<and> dd_bctx d = Some b \<and> lb_split L expr = Inr args \<and> args \<noteq> [] \<and> hd args \<noteq> [] \<and>
              lb_run L replCommands args = Invoke ''exec'' p \<and> run_exec b p = Panic m))
      | _ \<Rightarrow> False)"

lemma evaluated_simps [simp]:
  "fst (evaluated rq out cb) = Ok ()"
  "answers (snd (evaluated rq out cb)) = [\<lparr>rh_request_seq = rq_seq rq, rh_command = rq_command rq, rh_success = True\<rparr>]"
  by (simp_all add: evaluated_def split: option.split prod.split)

lemma evaluate_answered:
  "rq_body rq = Evaluate ctx expr \<Longrightarrow>
   \<exists>ok. answers (snd (onEvaluateRequest L run_exec rq ctx expr sd)) =
     (if dies_first L run_exec rq sd then []
      else [\<lparr>rh_request_seq = rq_seq rq, rh_command = rq_command rq, rh_success = ok\<rparr>]) \<and>
     (no_panic (fst (onEvaluateRequest L run_exec rq ctx expr sd)) \<longleftrightarrow> \<not> dies_first L run_exec rq sd)"
  by (auto simp: onEvaluateRequest_def dies_first_def sendUnsupportedResponse_def
      split: option.split sum.split cli_outcome.split go_result.split)


text \<open>
  C26. \<open>setBreakpoints\<close> replaces all line breakpoints: the client is told one verified
  breakpoint for each line it asked for, in order and numbered from 0, and the store then
  holds exactly these, each under its number, and the on-fail breakpoint.
\<close>

theorem set_breakpoints_exact:
  assumes "int (length lines) < 2 ^ 63"
  shows "\<exists>b. onSetBreakpointsRequest rq name lines d =
      ([respond rq (BreakpointsSet (map (\<lambda>i. \<lparr>db_id = int i, db_source = name, db_line = lines ! i, db_verified = True\<rparr>)
                                      [0..<length lines]))], d\<lparr>dd_bps := b\<rparr>) \<and>
    Get b ''on-fail'' = Some OnFail \<and>
    (\<forall>i < length lines. Get b (show_int (int i)) = Some (LineBp name (lines ! i))) \<and>
    (\<forall>k. k \<noteq> ''on-fail'' \<longrightarrow> (\<forall>i < length lines. k \<noteq> show_int (int i)) \<longrightarrow> Get b k = None)"
  using setBreakpoints_eq [OF assms, of rq name d] by (auto simp: holds_lines_def)

definition sample_debugger :: debugger where
  "sample_debugger = \<lparr>dd_bps = NewBreakpoints, dd_lconfig = None, dd_started = False, dd_bctx = None, dd_each = False,
     dd_cleanupAll = False\<rparr>"

definition sample_request :: "request_body \<Rightarrow> request" where
  "sample_request b = \<lparr>rq_seq = 5, rq_command = ''c'', rq_body = b\<rparr>"

theorem set_breakpoints_exact_witness:
  "\<exists>b. onSetBreakpointsRequest (sample_request Threads) ''Dockerfile'' [2, 9] sample_debugger =
      ([respond (sample_request Threads) (BreakpointsSet
          [\<lparr>db_id = 0, db_source = ''Dockerfile'', db_line = 2, db_verified = True\<rparr>,
           \<lparr>db_id = 1, db_source = ''Dockerfile'', db_line = 9, db_verified = True\<rparr>])],
       sample_debugger\<lparr>dd_bps := b\<rparr>) \<and> Get b (show_int 1) = Some (LineBp ''Dockerfile'' 9)"
proof -
  from set_breakpoints_exact [of "[2, 9]" "sample_request Threads" "''Dockerfile''" sample_debugger]
  obtain b where b: "onSetBreakpointsRequest (sample_request Threads) ''Dockerfile'' [2, 9] sample_debugger =
      ([respond (sample_request Threads) (BreakpointsSet
         (map (\<lambda>i. \<lparr>db_id = int i, db_source = ''Dockerfile'', db_line = [2, 9] ! i, db_verified = True\<rparr>)
            [0..<length [2 :: int, 9]]))], sample_debugger\<lparr>dd_bps := b\<rparr>)"
      "\<forall>i < length [2 :: int, 9]. Get b (show_int (int i)) = Some (LineBp ''Dockerfile'' ([2, 9] ! i))"
    by auto
  from b(2) have "Get b (show_int 1) = Some (LineBp ''Dockerfile'' 9)"
    by (auto dest: spec [of _ 1])
  with b(1) show ?thesis
    by (intro exI [of _ b]) (simp add: upt_rec)
qed

lemma hit_ids_set: "set (hit_ids ks) = {i. \<exists>k \<in> set ks. parse_int64 k = Some i}"
  by (force simp: hit_ids_def List.map_filter_def)

lemma parse_on_fail: "parse_int64 ''on-fail'' = None"
  by code_simp

text \<open>
  C10. The identifiers in a stopped event are those of the breakpoints that the client set
  on lines that the step reaches: number \<open>i\<close> is there exactly when some location of the
  step in that source covers the \<open>i\<close>th line asked for; the on-fail breakpoint has none.
\<close>

theorem stopped_ids_are_reached_lines:
  assumes "int (length lines) < 2 ^ 63"
    and "onSetBreakpointsRequest rq name lines d = (acts, d')"
  shows "i \<in> set (hit_ids (map fst (getHitBreakpoints (dd_bps d') info locs))) \<longleftrightarrow>
    (\<exists>n < length lines. i = int n \<and>
       (\<exists>loc \<in> set locs. si_filename (loc_source loc) = name \<and> (\<exists>r \<in> set (loc_ranges loc). covers r (lines ! n))))"
proof -
  have holds: "holds_lines (dd_bps d') name lines"
    using setBreakpoints_eq [OF assms(1), of rq name d] assms(2) by auto
  then have inv: "bps_inv (dd_bps d')" and on_fail: "Get (dd_bps d') ''on-fail'' = Some OnFail"
    and line: "\<And>n. n < length lines \<Longrightarrow> Get (dd_bps d') (show_int (int n)) = Some (LineBp name (lines ! n))"
    and other: "\<And>k. k \<noteq> ''on-fail'' \<Longrightarrow> \<forall>n < length lines. k \<noteq> show_int (int n) \<Longrightarrow> Get (dd_bps d') k = None"
    by (auto simp: holds_lines_def)
  let ?hits = "getHitBreakpoints (dd_bps d') info locs"
  have hit: "hit_info (LineBp name l) info locs \<noteq> None \<longleftrightarrow>
      (\<exists>loc \<in> set locs. si_filename (loc_source loc) = name \<and> (\<exists>r \<in> set (loc_ranges loc). covers r l))" for l
    using line_hits_empty_iff [of name l locs] by (auto simp: hit_info_def isTarget_line simp del: isTarget.simps)
  have parse: "parse_int64 (show_int (int n)) = Some (int n)" if "n < length lines" for n
    using that assms(1) by (intro parse_int64_show_int) (simp add: in64_def)
  have keys: "k \<in> set (map fst ?hits) \<longleftrightarrow> Option.bind (Get (dd_bps d') k) (\<lambda>bp. hit_info bp info locs) \<noteq> None" for k
    using getHitBreakpoints_lookup [OF inv, of info locs k]
    by (auto simp: dom_map_of_conv_image_fst [symmetric] domIff)
  show ?thesis
  proof
    assume "i \<in> set (hit_ids (map fst ?hits))"
    then obtain k where k: "k \<in> set (map fst ?hits)" "parse_int64 k = Some i"
      by (auto simp: hit_ids_set)
    then obtain n where n: "n < length lines" "k = show_int (int n)"
      using other [of k] keys [of k] parse_on_fail by fastforce
    with k keys [of k] line [OF n(1)] hit [of "lines ! n"] parse [OF n(1)]
    show "\<exists>n < length lines. i = int n \<and> (\<exists>loc \<in> set locs. si_filename (loc_source loc) = name \<and>
        (\<exists>r \<in> set (loc_ranges loc). covers r (lines ! n)))"
      by (intro exI [of _ n]) simp
  next
    assume "\<exists>n < length lines. i = int n \<and> (\<exists>loc \<in> set locs. si_filename (loc_source loc) = name \<and>
        (\<exists>r \<in> set (loc_ranges loc). covers r (lines ! n)))"
    then obtain n where n: "n < length lines" "i = int n" "hit_info (LineBp name (lines ! n)) info locs \<noteq> None"
      using hit by blast
    then have "show_int (int n) \<in> set (map fst ?hits)"
      using keys [of "show_int (int n)"] line [OF n(1)] by simp
    with parse [OF n(1)] n(2) show "i \<in> set (hit_ids (map fst ?hits))"
      unfolding hit_ids_set by blast
  qed
qed

theorem stopped_ids_are_reached_lines_witness:
  "1 \<in> set (hit_ids (map fst (getHitBreakpoints
     (dd_bps (snd (onSetBreakpointsRequest (sample_request Threads) ''Dockerfile'' [9, 2] sample_debugger)))
     (sample_status None) sample_locs)))"
proof -
  let ?r = "onSetBreakpointsRequest (sample_request Threads) ''Dockerfile'' [9, 2] sample_debugger"
  have "\<exists>n < length [9 :: int, 2]. (1 :: int) = int n \<and> (\<exists>loc \<in> set sample_locs. si_filename (loc_source loc) = ''Dockerfile'' \<and>
      (\<exists>r \<in> set (loc_ranges loc). covers r ([9, 2] ! n)))"
    by (intro exI [of _ 1]) (simp add: sample_locs_def sample_source_def covers_def)
  then show ?thesis
    using stopped_ids_are_reached_lines [of "[9, 2]" "sample_request Threads" "''Dockerfile''" sample_debugger
        "fst ?r" "snd ?r"] by simp
qed

text \<open>
  \<open>variables\<close> shows the environment of the step's command, split at the first equals
  sign, and pages through it: of the entries from \<open>start\<close> on, the first \<open>count\<close> (all, if
  it is not positive).
\<close>

theorem variables_page_of_environment:
  assumes "dd_bctx d = Some b" "op_kind_of (rs_op (bc_info b)) = Op_Exec ex"
  shows "onVariablesRequest rq start cnt d =
    (let vars = map (\<lambda>e. (takeWhile (\<lambda>c. c \<noteq> CHR ''='') e, tl (dropWhile (\<lambda>c. c \<noteq> CHR ''='') e))) (ex_env ex);
         rest = drop (nat start) vars
     in [respond rq (VariableList (if 0 < cnt then take (nat cnt) rest else rest))])"
proof -
  have "env_variable e = [(takeWhile (\<lambda>c. c \<noteq> CHR ''='') e, tl (dropWhile (\<lambda>c. c \<noteq> CHR ''='') e))]" for e
  proof (cases "CHR ''='' \<in> set e")
    case False
    then have all: "\<forall>x \<in> set e. x \<noteq> CHR ''=''"
      by auto
    have "takeWhile (\<lambda>c. c \<noteq> CHR ''='') e = e" "dropWhile (\<lambda>c. c \<noteq> CHR ''='') e = []"
      by (rule takeWhile_eq_all_conv [THEN iffD2, OF all], rule dropWhile_eq_Nil_conv [THEN iffD2, OF all])
    then show ?thesis
      unfolding env_variable_def splitN2_def using False by (simp only:) simp
  qed (simp add: env_variable_def splitN2_def)
  then have vars: "concat (map env_variable es) =
      map (\<lambda>e. (takeWhile (\<lambda>c. c \<noteq> CHR ''='') e, tl (dropWhile (\<lambda>c. c \<noteq> CHR ''='') e))) es" for es
    by (induction es) simp_all
  show ?thesis
    by (simp add: onVariablesRequest_def assms vars Let_def)
qed

definition env_step :: "string list \<Rightarrow> break_context" where
  "env_step env = \<lparr>bc_info = (sample_status None)\<lparr>rs_op :=
      \<lparr>op_kind_of = Op_Exec (sample_run\<lparr>ex_env := env\<rparr>), op_platform = 0, op_constraints = 0\<rparr>\<rparr>,
     bc_locs = [], bc_hits = []\<rparr>"

theorem variables_page_of_environment_witness:
  "onVariablesRequest (sample_request Threads) 1 1
     (sample_debugger\<lparr>dd_bctx := Some (env_step [''A=1'', ''B=x=y'', ''C''])\<rparr>) =
   [respond (sample_request Threads) (VariableList [(''B'', ''x=y'')])]"
proof -
  let ?b = "env_step [''A=1'', ''B=x=y'', ''C'']"
  have "dd_bctx (sample_debugger\<lparr>dd_bctx := Some ?b\<rparr>) = Some ?b"
    "op_kind_of (rs_op (bc_info ?b)) = Op_Exec (sample_run\<lparr>ex_env := [''A=1'', ''B=x=y'', ''C'']\<rparr>)"
    by (simp_all add: env_step_def)
  from variables_page_of_environment [OF this, of "sample_request Threads" 1 1] show ?thesis
    by simp
qed

lemma line_hits_single: "h \<in> set (line_hits fl l locs) \<Longrightarrow> loc_ranges h \<noteq> []"
  by (auto simp: line_hits_def)

lemma trace_line_of_hits:
  assumes "bps_inv b" "rs_err info = None" "set (bc_hits c) = set (getHitBreakpoints b info locs)"
    and "r \<in> set (concat (map (\<lambda>(k, i). concat (map loc_ranges (bi_hits i))) (bc_hits c)))"
  shows "\<exists>k fl l. Get b k = Some (LineBp fl l) \<and>
    (\<exists>loc \<in> set locs. si_filename (loc_source loc) = fl \<and> r \<in> set (loc_ranges loc) \<and> covers r l)"
proof -
  obtain k i h where h: "(k, i) \<in> set (getHitBreakpoints b info locs)" "h \<in> set (bi_hits i)" "r \<in> set (loc_ranges h)"
    using assms(3,4) by auto
  then have "map_of (getHitBreakpoints b info locs) k = Some i"
    using getHitBreakpoints_distinct [OF assms(1)] by simp
  then obtain bp where bp: "Get b k = Some bp" "hit_info bp info locs = Some i"
    using getHitBreakpoints_lookup [OF assms(1), of info locs k] by (cases "Get b k") auto
  then obtain fl l where line: "bp = LineBp fl l" "i = \<lparr>bi_description = bi_description i, bi_hits = line_hits fl l locs\<rparr>"
    using assms(2) by (cases bp) (auto simp: hit_info_def isTarget_line split: if_splits simp del: isTarget.simps(2))
  with h(2) have "h \<in> set (line_hits fl l locs)"
    by (metis breakpoint_info.select_convs(2))
  then have "\<exists>loc \<in> set locs. si_filename (loc_source loc) = fl \<and> r \<in> set (loc_ranges loc) \<and> covers r l"
    using h(3) by (auto simp: line_hits_def)
  with bp(1) line(1) show ?thesis
    by blast
qed

text \<open>
  C30. At a stop by line breakpoints (of a step without error) the stack has one frame, and
  the frame shows a range of the step's locations that covers the line of a breakpoint set
  in that file; whatever order the hits were ranged over in.
\<close>

theorem stack_frame_covers_breakpoint:
  assumes "bps_inv b" "rs_err (bc_info c) = None" "set (bc_hits c) = set (getHitBreakpoints b (bc_info c) (bc_locs c))"
    and "bc_hits c \<noteq> []" "dd_bctx d = Some c" "dd_lconfig d = Some cfg"
  shows "\<exists>r f k fl l. onStackTraceRequest rq d = [respond rq (Frames [f] 1)] \<and>
    sf_source_path f = lc_program cfg \<and> sf_line f = start_line r \<and> sf_end_line f = end_line r \<and>
    Get b k = Some (LineBp fl l) \<and> sf_line f \<le> l \<and> l \<le> sf_end_line f \<and>
    (\<exists>loc \<in> set (bc_locs c). si_filename (loc_source loc) = fl \<and> r \<in> set (loc_ranges loc))"
proof -
  let ?lines = "concat (map (\<lambda>(k, i). concat (map loc_ranges (bi_hits i))) (bc_hits c))"
  have "?lines \<noteq> []"
  proof -
    obtain k i where "(k, i) \<in> set (bc_hits c)"
      using assms(4) by (cases "bc_hits c") auto
    moreover from this have "map_of (getHitBreakpoints b (bc_info c) (bc_locs c)) k = Some i"
      using assms(1,3) getHitBreakpoints_distinct [OF assms(1)] by simp
    then obtain bp where "hit_info bp (bc_info c) (bc_locs c) = Some i"
      using getHitBreakpoints_lookup [OF assms(1), of "bc_info c" "bc_locs c" k] by (cases "Get b k") auto
    then obtain fl l where "bi_hits i = line_hits fl l (bc_locs c)" "line_hits fl l (bc_locs c) \<noteq> []"
      using assms(2) by (cases bp) (auto simp: hit_info_def isTarget_line split: if_splits simp del: isTarget.simps(2))
    then obtain h where "h \<in> set (bi_hits i)" "loc_ranges h \<noteq> []"
      using line_hits_single [of "hd (line_hits fl l (bc_locs c))" fl l "bc_locs c"] by (metis hd_in_set)
    ultimately show ?thesis
      by fastforce
  qed
  then obtain r rs where r: "?lines = r # rs"
    by (cases ?lines) auto
  then have lines: "trace_lines c = r # rs"
    unfolding trace_lines_def Let_def r by simp
  have "r \<in> set ?lines"
    unfolding r by simp
  from trace_line_of_hits [OF assms(1-3) this] obtain k fl l where
    k: "Get b k = Some (LineBp fl l)" "\<exists>loc \<in> set (bc_locs c). si_filename (loc_source loc) = fl \<and>
       r \<in> set (loc_ranges loc) \<and> covers r l"
    by blast
  with lines assms(5,6) show ?thesis
    by (intro exI [of _ r] exI [of _ "\<lparr>sf_id = 0, sf_source_name = Base (lc_program cfg), sf_source_path = lc_program cfg,
          sf_line = start_line r, sf_end_line = end_line r,
          sf_name = (if rs_name (bc_info c) \<noteq> [] then rs_name (bc_info c) else ''instruction'')\<rparr>"]
        exI [of _ k] exI [of _ fl] exI [of _ l])
      (auto simp: onStackTraceRequest_def covers_def)
qed

definition sample_launch :: launch_config where
  "sample_launch = \<lparr>lc_program = ''/w/Dockerfile'', lc_noDebug = False, lc_stopOnEntry = False, lc_target = [],
     lc_build_args = [], lc_ssh = [], lc_secrets = [], lc_image = []\<rparr>"

theorem stack_frame_covers_breakpoint_witness:
  "\<exists>f. onStackTraceRequest (sample_request StackTrace)
      (sample_debugger\<lparr>dd_lconfig := Some sample_launch,
         dd_bctx := Some \<lparr>bc_info = sample_status None, bc_locs = sample_locs,
           bc_hits = getHitBreakpoints (h_breakpoints marked_handler) (sample_status None) sample_locs\<rparr>\<rparr>) =
      [respond (sample_request StackTrace) (Frames [f] 1)] \<and> sf_line f \<le> 2 \<and> 2 \<le> sf_end_line f"
proof -
  let ?b = "h_breakpoints marked_handler"
  let ?c = "\<lparr>bc_info = sample_status None, bc_locs = sample_locs,
           bc_hits = getHitBreakpoints ?b (sample_status None) sample_locs\<rparr>"
  have inv: "bps_inv ?b"
    using marked_handler_inv by (simp add: handler_inv_def)
  have hits: "bc_hits ?c \<noteq> []"
    by code_simp
  have get: "Get ?b k = Some (LineBp fl l) \<Longrightarrow> l = 2" for k fl l
    by (auto simp: marked_handler_def NewBreakpoints_def Add_def map_entries_def split: if_splits)
  from stack_frame_covers_breakpoint [OF inv _ _ hits, of "sample_debugger\<lparr>dd_lconfig := Some sample_launch, dd_bctx := Some ?c\<rparr>"
      sample_launch "sample_request StackTrace"] get
  show ?thesis
    by (fastforce simp: sample_status_def)
qed

end
