(* ===== verification/DapSession.thy ===== *)
theory DapSession
  imports DapServer
begin

text \<open>
  The exchange between the stopped build and the DAP client in \<open>pkg/dap/debugger.go\<close>, over
  the unbuffered channels \<open>stoppedCh\<close> and \<open>mesCh\<close>: the breakpoint handler sends the
  identifiers, records the break and waits for a message; each \<open>continue\<close> and \<open>next\<close>
  request runs in a goroutine of its own that blocks until its message is taken;
  disconnecting closes \<open>stoppedCh\<close>.
\<close>

section \<open>The system\<close>

datatype build_phase = Building | Reporting | Recording | Paused | Crashed

text \<open>
  \<open>ss_break\<close> is the break being handled, \<open>ss_senders\<close> the goroutines blocked in
  \<open>mesCh <-\<close>. The counters are history: accepted requests, stops reported, resumptions.
\<close>

record dap_session =
  ss_debugger :: debugger
  ss_phase :: build_phase
  ss_break :: "registered_status \<times> location list \<times> hits"
  ss_senders :: "string list"
  ss_closed :: bool
  ss_acts :: "act list"
  ss_requests :: nat
  ss_stops :: nat
  ss_resumes :: nat

definition mes_of :: "act list \<Rightarrow> string list" where
  "mes_of = List.map_filter (\<lambda>a. case a of Mes m \<Rightarrow> Some m | _ \<Rightarrow> None)"

text \<open>A \<open>continue\<close> or \<open>next\<close> request: the response is sent, then the message is offered.\<close>

definition control_request :: "bool \<Rightarrow> request \<Rightarrow> debugger \<Rightarrow> act list \<times> debugger" where
  "control_request nxt rq d = (if nxt then onNextRequest rq d else onContinueRequest rq d)"

inductive dap_step :: "dap_session \<Rightarrow> dap_session \<Rightarrow> bool" where
  build_stops: "ss_phase s = Building \<Longrightarrow>
    dap_step s (s\<lparr>ss_phase := Reporting, ss_break := (info, locs, hits)\<rparr>)"
| report: "ss_phase s = Reporting \<Longrightarrow> \<not> ss_closed s \<Longrightarrow> ss_break s = (info, locs, hits) \<Longrightarrow>
    dap_step s (s\<lparr>ss_phase := Recording, ss_stops := Suc (ss_stops s),
                  ss_acts := ss_acts s @ fst (dap_breakHandler info locs hits (ss_debugger s))\<rparr>)"
| record_break: "ss_phase s = Recording \<Longrightarrow> ss_break s = (info, locs, hits) \<Longrightarrow>
    dap_step s (s\<lparr>ss_phase := Paused, ss_debugger := snd (dap_breakHandler info locs hits (ss_debugger s))\<rparr>)"
| control: "control_request nxt rq (ss_debugger s) = (acts, d) \<Longrightarrow>
    dap_step s (s\<lparr>ss_debugger := d, ss_acts := ss_acts s @ acts, ss_senders := ss_senders s @ mes_of acts,
                  ss_requests := ss_requests s + length (mes_of acts)\<rparr>)"
| resume: "ss_phase s = Paused \<Longrightarrow> ss_senders s = ms @ m # ms' \<Longrightarrow>
    dap_step s (s\<lparr>ss_phase := Building, ss_senders := ms @ ms', ss_resumes := Suc (ss_resumes s)\<rparr>)"
| disconnect: "dap_step s (s\<lparr>ss_closed := True\<rparr>)"
| crash: "ss_phase s = Reporting \<Longrightarrow> ss_closed s \<Longrightarrow> dap_step s (s\<lparr>ss_phase := Crashed\<rparr>)"

definition dap_init :: "dap_session \<Rightarrow> bool" where
  "dap_init s \<longleftrightarrow> ss_phase s = Building \<and> ss_senders s = [] \<and> \<not> ss_closed s \<and> dd_bctx (ss_debugger s) = None \<and>
     ss_requests s = 0 \<and> ss_stops s = 0 \<and> ss_resumes s = 0"

definition dap_inv :: "dap_session \<Rightarrow> bool" where
  "dap_inv s \<longleftrightarrow> ss_resumes s + length (ss_senders s) = ss_requests s \<and>
     ss_stops s = ss_resumes s + (if ss_phase s = Recording \<or> ss_phase s = Paused then 1 else 0) \<and>
     (dd_bctx (ss_debugger s) = None \<longrightarrow> ss_senders s = [] \<and> ss_phase s \<noteq> Paused)"

lemma mes_of_simps [simp]:
  "mes_of [] = []" "mes_of (Mes m # as) = m # mes_of as" "mes_of (respond rq b # as) = mes_of as"
  by (simp_all add: mes_of_def List.map_filter_def respond_def)

lemma control_request_cases:
  "control_request nxt rq d = (acts, d') \<Longrightarrow>
     mes_of acts = (if dd_bctx d = None then [] else [if nxt then ''next'' else ''continue'']) \<and>
     dd_bctx d' = dd_bctx d \<and> (dd_bctx d = None \<longrightarrow> d' = d)"
  by (auto simp: control_request_def onNextRequest_def onContinueRequest_def doNext_def doContinue_def split: if_splits)

lemma dap_step_inv: "dap_step s t \<Longrightarrow> dap_inv s \<Longrightarrow> dap_inv t"
proof (induction rule: dap_step.induct)
  case (control nxt rq s acts d)
  with control_request_cases [OF control(1)] show ?case
    by (auto simp: dap_inv_def split: if_splits)
qed (auto simp: dap_inv_def dap_breakHandler_def split: if_splits)

interpretation dap: inv_system dap_init dap_step dap_inv
proof
  show "dap_init s \<Longrightarrow> dap_inv s" for s
    by (simp add: dap_init_def dap_inv_def)
qed (rule dap_step_inv)

abbreviation dap_reach :: "dap_session \<Rightarrow> bool" where
  "dap_reach \<equiv> reach dap_init dap_step"

section \<open>Properties\<close>

text \<open>
  C13. The build resumes only on the client's requests: each resumption uses up one accepted
  \<open>continue\<close> or \<open>next\<close>, every other accepted one is still blocked, and a running build has
  been resumed exactly once from each stop that was reported.
\<close>

theorem dap_resumes_on_request:
  assumes "dap_reach s"
  shows "ss_resumes s + length (ss_senders s) = ss_requests s \<and> ss_stops s \<le> Suc (ss_resumes s) \<and>
    (if ss_phase s = Building then ss_stops s = ss_resumes s \<and> ss_stops s \<le> ss_requests s else True)"
  using dap.reach_inv [OF assms] by (auto simp: dap_inv_def split: if_splits)

definition dap_start :: dap_session where
  "dap_start = \<lparr>ss_debugger = sample_debugger, ss_phase = Building, ss_break = (sample_status None, sample_locs, []),
     ss_senders = [], ss_closed = False, ss_acts = [], ss_requests = 0, ss_stops = 0, ss_resumes = 0\<rparr>"

lemma dap_start_reach: "dap_reach dap_start"
  by (rule reach_init) (simp add: dap_init_def dap_start_def sample_debugger_def)

text \<open>
  C32. A \<open>continue\<close> sent while the build runs (after a first stop) is not dropped but kept:
  the next stop can be reported to the client and be left again without any further
  request of the client.
\<close>

theorem early_continue_skips_next_stop:
  assumes "dap_reach s" "ss_phase s = Building" "dd_bctx (ss_debugger s) \<noteq> None" "\<not> ss_closed s"
  shows "\<exists>s' t. dap_step s s' \<and> ss_phase s' = Building \<and> ss_requests s' = Suc (ss_requests s) \<and>
    dap_step\<^sup>*\<^sup>* s' t \<and> ss_stops t = Suc (ss_stops s') \<and> ss_requests t = ss_requests s' \<and> ss_phase t = Building"
proof -
  obtain acts d where c: "control_request False (sample_request Continue) (ss_debugger s) = (acts, d)"
    by (metis old.prod.exhaust)
  then have mes: "mes_of acts = [''continue'']"
    using control_request_cases [OF c] assms(3) by simp
  let ?b = "(sample_status None, sample_locs, []) :: registered_status \<times> location list \<times> hits"
  define s0 where "s0 = s\<lparr>ss_debugger := d, ss_acts := ss_acts s @ acts, ss_senders := ss_senders s @ mes_of acts,
                  ss_requests := ss_requests s + length (mes_of acts)\<rparr>"
  define s1 where "s1 = s0\<lparr>ss_phase := Reporting, ss_break := ?b\<rparr>"
  define s2 where "s2 = s1\<lparr>ss_phase := Recording, ss_stops := Suc (ss_stops s1),
      ss_acts := ss_acts s1 @ fst (dap_breakHandler (sample_status None) sample_locs [] (ss_debugger s1))\<rparr>"
  define s3 where "s3 = s2\<lparr>ss_phase := Paused,
      ss_debugger := snd (dap_breakHandler (sample_status None) sample_locs [] (ss_debugger s2))\<rparr>"
  define s4 where "s4 = s3\<lparr>ss_phase := Building, ss_senders := ss_senders s @ [], ss_resumes := Suc (ss_resumes s3)\<rparr>"
  have first: "dap_step s s0"
    unfolding s0_def by (rule dap_step.control [OF c])
  have s0: "ss_phase s0 = Building" "ss_requests s0 = Suc (ss_requests s)" "\<not> ss_closed s0"
    using assms(2,4) mes by (simp_all add: s0_def)
  have st: "dap_step s0 s1" "dap_step s1 s2" "dap_step s2 s3" "dap_step s3 s4"
  proof -
    show "dap_step s0 s1"
      unfolding s1_def by (rule dap_step.build_stops [OF s0(1)])
    show "dap_step s1 s2"
      unfolding s2_def by (rule dap_step.report) (use s0(3) in \<open>simp_all add: s1_def\<close>)
    show "dap_step s2 s3"
      unfolding s3_def by (rule dap_step.record_break) (simp_all add: s2_def s1_def)
    show "dap_step s3 s4"
      unfolding s4_def by (rule dap_step.resume [where m = "''continue''"])
        (simp_all add: s3_def s2_def s1_def s0_def mes)
  qed
  have "dap_step\<^sup>*\<^sup>* s0 s4"
    using st by (auto elim!: converse_rtranclp_into_rtranclp)
  moreover have "ss_stops s4 = Suc (ss_stops s0)" "ss_requests s4 = ss_requests s0" "ss_phase s4 = Building"
    by (simp_all add: s4_def s3_def s2_def s1_def)
  ultimately show ?thesis
    using first s0 by blast
qed

text \<open>A session that has been stopped and resumed once.\<close>

definition dap_resumed :: dap_session where
  "dap_resumed = dap_start\<lparr>ss_debugger := sample_debugger\<lparr>dd_bctx := Some \<lparr>bc_info = sample_status None,
       bc_locs = sample_locs, bc_hits = []\<rparr>\<rparr>,
     ss_acts := [Send (stopped_event []), respond (sample_request Continue) NoBody, Mes ''continue''],
     ss_requests := 1, ss_stops := 1, ss_resumes := 1\<rparr>"

lemma dap_resumed_reach: "dap_reach dap_resumed"
proof -
  let ?s1 = "dap_start\<lparr>ss_phase := Reporting\<rparr>"
  let ?s2 = "?s1\<lparr>ss_phase := Recording, ss_stops := 1, ss_acts := [Send (stopped_event [])]\<rparr>"
  let ?s3 = "?s2\<lparr>ss_phase := Paused, ss_debugger := ss_debugger dap_resumed\<rparr>"
  let ?s4 = "?s3\<lparr>ss_acts := ss_acts dap_resumed, ss_senders := [''continue''], ss_requests := 1\<rparr>"
  have "dap_step dap_start ?s1"
    using dap_step.build_stops [of dap_start "sample_status None" sample_locs "[]"] by (simp add: dap_start_def)
  moreover have "dap_step ?s1 ?s2"
    using dap_step.report [of ?s1 "sample_status None" sample_locs "[]"]
    by (simp add: dap_start_def dap_breakHandler_def hit_ids_def)
  moreover have "dap_step ?s2 ?s3"
    using dap_step.record_break [of ?s2 "sample_status None" sample_locs "[]"]
    by (simp add: dap_start_def dap_resumed_def dap_breakHandler_def)
  moreover have "dap_step ?s3 ?s4"
    using dap_step.control [of False "sample_request Continue" ?s3]
    by (simp add: dap_start_def dap_resumed_def control_request_def onContinueRequest_def doContinue_def sample_debugger_def)
  moreover have "dap_step ?s4 dap_resumed"
    using dap_step.resume [of ?s4 "[]" "''continue''" "[]"] by (simp add: dap_start_def dap_resumed_def)
  ultimately show ?thesis
    using dap_start_reach by (meson reach_step)
qed

theorem dap_resumes_on_request_witness:
  "ss_resumes dap_resumed + length (ss_senders dap_resumed) = 1 \<and> ss_stops dap_resumed = ss_resumes dap_resumed"
  using dap_resumes_on_request [OF dap_resumed_reach] by (simp add: dap_resumed_def dap_start_def)

theorem early_continue_skips_next_stop_witness:
  "\<exists>s' t. dap_step dap_resumed s' \<and> dap_step\<^sup>*\<^sup>* s' t \<and> ss_requests t = 2 \<and> ss_stops t = Suc (ss_stops s') \<and>
     ss_phase t = Building"
proof -
  have "ss_phase dap_resumed = Building" "dd_bctx (ss_debugger dap_resumed) \<noteq> None" "\<not> ss_closed dap_resumed"
    by (simp_all add: dap_resumed_def dap_start_def)
  moreover have "Suc (ss_requests dap_resumed) = 2"
    by (simp add: dap_resumed_def)
  ultimately show ?thesis
    using early_continue_skips_next_stop [OF dap_resumed_reach] by metis
qed

text \<open>
  A first \<open>continue\<close> or \<open>next\<close> that comes after the stopped event but before the break is
  recorded is answered with success and has no effect: no message is left for the build,
  which stays stopped until a further request.
\<close>

theorem request_before_record_is_lost:
  assumes "dap_reach s" "ss_phase s = Recording" "dd_bctx (ss_debugger s) = None"
    and "control_request nxt rq (ss_debugger s) = (acts, d)"
  shows "acts = [respond rq NoBody] \<and> d = ss_debugger s \<and> ss_senders s @ mes_of acts = []"
proof -
  have "ss_senders s = []"
    using dap.reach_inv [OF assms(1)] assms(3) by (simp add: dap_inv_def)
  then show ?thesis
    using assms(3,4)
    by (auto simp: control_request_def onNextRequest_def onContinueRequest_def doNext_def doContinue_def split: if_splits)
qed

definition dap_recording :: dap_session where
  "dap_recording = dap_start\<lparr>ss_phase := Recording, ss_stops := 1, ss_acts := [Send (stopped_event [])]\<rparr>"

lemma dap_recording_reach: "dap_reach dap_recording"
proof -
  let ?s1 = "dap_start\<lparr>ss_phase := Reporting\<rparr>"
  have "dap_step dap_start ?s1"
    using dap_step.build_stops [of dap_start "sample_status None" sample_locs "[]"] by (simp add: dap_start_def)
  moreover have "dap_step ?s1 dap_recording"
    using dap_step.report [of ?s1 "sample_status None" sample_locs "[]"]
    by (simp add: dap_start_def dap_recording_def dap_breakHandler_def hit_ids_def)
  ultimately show ?thesis
    using dap_start_reach by (meson reach_step)
qed

theorem request_before_record_is_lost_witness:
  "fst (control_request True (sample_request Next) (ss_debugger dap_recording)) = [respond (sample_request Next) NoBody]"
proof -
  have "ss_phase dap_recording = Recording" "dd_bctx (ss_debugger dap_recording) = None"
    by (simp_all add: dap_recording_def dap_start_def sample_debugger_def)
  from request_before_record_is_lost [OF dap_recording_reach this, of True "sample_request Next"] show ?thesis
    by (metis prod.collapse)
qed

end
