(* ===== verification/DapExec.thy ===== *)
theory DapExec
  imports DapServer
begin

text \<open>
  The container that \<open>exec\<close> starts from a DAP client: the pipes and the signal socket of
  \<open>pkg/dap/io.go\<close>, the action of \<open>execCommand\<close> in \<open>pkg/dap/dap.go\<close> with everything it takes
  and gives back, and the client that attaches a terminal.
\<close>

section \<open>Pipes\<close>

datatype dcall =
    MkTempState
  | RmTemp string
  | OpenFifo string
  | CloseFifo string
  | ServeIO string
  | StopIO string
  | Executable
  | Ctr effect
  | FindConsole
  | ConsoleRaw
  | ConsoleReset
  | CopyIO
  | Warn string

definition fifo_path :: "string \<Rightarrow> string \<Rightarrow> string" where
  "fifo_path dir name = Join dir name"

text \<open>
  The named results of \<open>openFifosClient\<close> and \<open>openFifosServer\<close>: whether \<open>stdin\<close>, \<open>stdout\<close>
  and \<open>stderr\<close> are non-nil, and \<open>retErr\<close>. A \<open>return\<close> with operands assigns them before the
  deferred functions run, and these look at the results.
\<close>

record fifo_results =
  fr_stdin :: bool
  fr_stdout :: bool
  fr_stderr :: bool
  fr_err :: "go_err option"

datatype fifo_defer = CloseStdin | CloseStdout | CloseStderr

definition fifo_closes :: "string \<Rightarrow> fifo_results \<Rightarrow> fifo_defer list \<Rightarrow> dcall list" where
  "fifo_closes dir v ds =
     concat (map (\<lambda>d. case d of
         CloseStdin \<Rightarrow> if fr_err v \<noteq> None \<and> fr_stdin v then [CloseFifo (fifo_path dir ''stdin'')] else []
       | CloseStdout \<Rightarrow> if fr_err v \<noteq> None \<and> fr_stdout v then [CloseFifo (fifo_path dir ''stdout'')] else []
       | CloseStderr \<Rightarrow> if fr_err v \<noteq> None \<and> fr_stderr v then [CloseFifo (fifo_path dir ''stderr'')] else [])
       (rev ds))"

definition fifo_return :: "dcall world \<Rightarrow> string \<Rightarrow> fifo_results \<Rightarrow> fifo_defer list \<Rightarrow> (dcall, unit) prog" where
  "fifo_return os dir v ds =
     deferred os (fifo_closes dir v ds) (case fr_err v of Some e \<Rightarrow> fail e | None \<Rightarrow> ret ())"

definition nil_results :: "go_err \<Rightarrow> fifo_results" where
  "nil_results e = \<lparr>fr_stdin = False, fr_stdout = False, fr_stderr = False, fr_err = Some e\<rparr>"

declare fifo_closes_def [go_defs] fifo_return_def [go_defs] nil_results_def [go_defs]

text \<open>Client and server differ in the open flags only.\<close>

definition openFifos :: "dcall world \<Rightarrow> string \<Rightarrow> (dcall, unit) prog" where
  "openFifos os dir =
     call os (OpenFifo (fifo_path dir ''stdin'')) (\<lambda>r1. case r1 of
       Inl e \<Rightarrow> fifo_return os dir (nil_results (Wrapf ''failed to open stdin fifo: %w'' e)) []
     | Inr _ \<Rightarrow>
         call os (OpenFifo (fifo_path dir ''stdout'')) (\<lambda>r2. case r2 of
           Inl e \<Rightarrow> fifo_return os dir (nil_results (Wrapf ''failed to open stdout fifo: %w'' e)) [CloseStdin]
         | Inr _ \<Rightarrow>
             call os (OpenFifo (fifo_path dir ''stderr'')) (\<lambda>r3. case r3 of
               Inl e \<Rightarrow> fifo_return os dir (nil_results (Wrapf ''failed to open stderr fifo: %w'' e))
                          [CloseStdin, CloseStdout]
             | Inr _ \<Rightarrow>
                 fifo_return os dir \<lparr>fr_stdin = True, fr_stdout = True, fr_stderr = True, fr_err = None\<rparr>
                   [CloseStdin, CloseStdout, CloseStderr])))"

definition all_fifos :: "string \<Rightarrow> string list" where
  "all_fifos dir = [fifo_path dir ''stdin'', fifo_path dir ''stdout'', fifo_path dir ''stderr'']"

text \<open>\<open>serveContainerIO\<close>; \<open>done_calls\<close> is the function it returns.\<close>

definition serveContainerIO :: "dcall world \<Rightarrow> string \<Rightarrow> (dcall, unit) prog" where
  "serveContainerIO os root = bind (openFifos os root) (\<lambda>_. perform os (ServeIO root) (ret ()))"

definition done_calls :: "string \<Rightarrow> dcall list" where
  "done_calls root = StopIO root # map CloseFifo (all_fifos root)"

text \<open>
  \<open>AttachContainerIO\<close>, the terminal's side. \<open>timed_out\<close>: the three seconds ended first; the
  pipes that a goroutine opens later are then nobody's.
\<close>

definition AttachContainerIO :: "dcall world \<Rightarrow> string \<Rightarrow> bool \<Rightarrow> bool \<Rightarrow> (dcall, unit) prog" where
  "AttachContainerIO os root setTtyRaw timed_out =
     (if root = [] then fail (Errorf ''root needs to be specified'' [])
      else if timed_out then fail (Errorf ''i/o timeout; check server is up and running'' [])
      else bind (openFifos os root) (\<lambda>_.
        deferred os (map CloseFifo (all_fifos root))
          (if setTtyRaw
           then call os FindConsole (\<lambda>c. case c of
                  Inl _ \<Rightarrow> (\<lambda>tr. (Panic ''no terminal'', tr))
                | Inr _ \<Rightarrow> call os ConsoleRaw (\<lambda>r. case r of
                    Inl e \<Rightarrow> fail (Errvf ''failed to configure terminal: %v'' e)
                  | Inr _ \<Rightarrow> deferred os [ConsoleReset] (attempt os CopyIO (\<lambda>_. ret ()))))
           else attempt os CopyIO (\<lambda>_. ret ()))))"

text \<open>\<open>signalForwarder\<close>: the process it forwards to, if any, and what a posted signal does.\<close>

definition forward_signal :: "(string \<Rightarrow> int option) \<Rightarrow> nat option \<Rightarrow> string \<Rightarrow> (nat \<times> int) option" where
  "forward_signal signalMap proc sig =
     (case signalMap sig of
        None \<Rightarrow> None
      | Some s \<Rightarrow> (case proc of Some p \<Rightarrow> Some (p, s) | None \<Rightarrow> None))"

text \<open>
  The terminal's side of a signal: the table from numbers to names that \<open>AttachContainerIO\<close>
  makes of the table from names to numbers, in whatever order the map is ranged over; a
  signal without a name is not posted.
\<close>

primrec sig_loop :: "(string \<times> int) list \<Rightarrow> (int \<Rightarrow> string option) \<Rightarrow> int \<Rightarrow> string option" where
  "sig_loop [] m = m"
| "sig_loop (e # es) m = sig_loop es (m(snd e \<mapsto> fst e))"

definition sigToName :: "(string \<times> int) list \<Rightarrow> int \<Rightarrow> string option" where
  "sigToName entries = sig_loop entries Map.empty"

section \<open>The exec action\<close>

definition dap_exec_config :: "nat option \<Rightarrow> registered_status \<Rightarrow> exec_flags \<Rightarrow> container_config" where
  "dap_exec_config img info f = (exec_config img info f)\<lparr>cc_no_set_raw := True\<rparr>"

definition emit :: "dcall list \<Rightarrow> (dcall, 'a) prog \<Rightarrow> (dcall, 'a) prog" where
  "emit cs p tr = p (tr @ map (\<lambda>c. (c, Inr [])) cs)"

text \<open>
  The action: it returns the state directory, its own executable and the clean-ups of the
  container, which go on to the goroutine that waits for the process.
\<close>

definition dap_execAction ::
  "dcall world \<Rightarrow> exec_env \<Rightarrow> nat option \<Rightarrow> registered_status \<Rightarrow> exec_flags \<Rightarrow> (dcall, string \<times> string \<times> cleanup list) prog" where
  "dap_execAction os env img info f =
     (if xf_i f \<and> \<not> xf_tty f \<or> \<not> xf_i f \<and> xf_tty f
      then fail (Errorf ''flag \"-i\" and \"-t\" must be set together'' [])
      else
        attempt os MkTempState (\<lambda>tmp.
          on_error os [RmTemp tmp]
            (bind (serveContainerIO os tmp) (\<lambda>_.
               on_error os (done_calls tmp)
                 (attempt os Executable (\<lambda>self.
                    emit (case op_kind_of (rs_op info) of
                            Op_Exec _ \<Rightarrow> []
                          | Op_Other \<Rightarrow> [Warn ''container execution on non-RUN instruction is experimental''])
                      (case ExecContainer env (dap_exec_config img info f) of
                         (r, effs) \<Rightarrow>
                           emit (map Ctr effs)
                             (case r of
                                Ok cs \<Rightarrow> ret (tmp, self, cs)
                              | Fail e \<Rightarrow> fail e
                              | Panic m \<Rightarrow> (\<lambda>tr. (Panic m, tr)))))))))) "

text \<open>The goroutine: when the process has ended, or the server shuts down, everything is cleaned up.\<close>

definition task_cleanup :: "string \<Rightarrow> cleanup list \<Rightarrow> dcall list" where
  "task_cleanup tmp cs = map (\<lambda>c. Ctr (Cleanup c)) cs @ done_calls tmp @ [RmTemp tmp]"

text \<open>The terminal that is started after the response: a hidden command of buildg, on the state directory.\<close>

definition AttachContainerCommand :: string where "AttachContainerCommand = ''_dap_attach_container''"

definition attach_args :: "string \<Rightarrow> string \<Rightarrow> bool \<Rightarrow> string list" where
  "attach_args self tmp tty =
     [self, ''dap'', AttachContainerCommand, ''--set-tty-raw='' @ (if tty then ''true'' else ''false''), tmp]"

definition run_in_terminal :: "string \<times> string \<times> cleanup list \<Rightarrow> exec_flags \<Rightarrow> launch_config \<Rightarrow> string list \<times> string" where
  "run_in_terminal r f cfg = (case r of (tmp, self, cs) \<Rightarrow> (attach_args self tmp (xf_tty f), Dir (lc_program cfg)))"

text \<open>The action as \<open>onEvaluateRequest\<close> runs it, after the calls \<open>tr\<close> of the server.\<close>

definition exec_flags_of :: "parsed \<Rightarrow> exec_flags" where
  "exec_flags_of p =
     \<lparr>xf_args = pa_args p, xf_i = pa_bool p ''i'', xf_tty = pa_bool p ''tty'', xf_image = pa_bool p ''image'',
      xf_mountroot = pa_string p ''mountroot'', xf_init_state = pa_bool p ''init-state'',
      xf_env = pa_strings p ''env'', xf_workdir = pa_string p ''workdir''\<rparr>"

definition dap_run_exec ::
  "dcall world \<Rightarrow> exec_env \<Rightarrow> nat option \<Rightarrow> launch_config \<Rightarrow> dcall trace \<Rightarrow> exec_action" where
  "dap_run_exec os env img cfg tr b p =
     (case fst (dap_execAction os env img (bc_info b) (exec_flags_of p) tr) of
        Ok r \<Rightarrow> Ok (run_in_terminal r (exec_flags_of p) cfg)
      | Fail e \<Rightarrow> Fail e
      | Panic m \<Rightarrow> Panic m)"

section \<open>What is held\<close>

datatype dresource = State string | Fifo string | Socket string | RawConsole

definition dtakes :: "dcall \<Rightarrow> answer \<Rightarrow> dresource list" where
  "dtakes c a =
     (case c of
        ServeIO root \<Rightarrow> [Socket root]
      | MkTempState \<Rightarrow> (case a of Inr g \<Rightarrow> [State g] | Inl _ \<Rightarrow> [])
      | OpenFifo p \<Rightarrow> (case a of Inr _ \<Rightarrow> [Fifo p] | Inl _ \<Rightarrow> [])
      | ConsoleRaw \<Rightarrow> (case a of Inr _ \<Rightarrow> [RawConsole] | Inl _ \<Rightarrow> [])
      | _ \<Rightarrow> [])"

definition dgives :: "dcall \<Rightarrow> dresource list" where
  "dgives c =
     (case c of
        RmTemp d \<Rightarrow> [State d]
      | CloseFifo p \<Rightarrow> [Fifo p]
      | StopIO root \<Rightarrow> [Socket root]
      | ConsoleReset \<Rightarrow> [RawConsole]
      | _ \<Rightarrow> [])"

definition dgain :: "dresource \<Rightarrow> dcall \<times> answer \<Rightarrow> int" where
  "dgain r ca = int (count_list (dtakes (fst ca) (snd ca)) r) - int (count_list (dgives (fst ca)) r)"

lemmas dgain_defs = dgain_def dtakes_def dgives_def

text \<open>The change of a level by a program that succeeds, or fails; nothing is said of a panic.\<close>

definition yields :: "(dcall \<times> answer \<Rightarrow> int) \<Rightarrow> ('a \<Rightarrow> int) \<Rightarrow> int \<Rightarrow> (dcall, 'a) prog \<Rightarrow> bool" where
  "yields d f g p \<longleftrightarrow> (\<forall>tr. case p tr of
       (Ok a, tr') \<Rightarrow> level d tr' = level d tr + f a
     | (Fail e, tr') \<Rightarrow> level d tr' = level d tr + g
     | (Panic m, tr') \<Rightarrow> True)"

lemma yields_ret: "f a = 0 \<Longrightarrow> yields d f g (ret a)" and yields_fail: "g = 0 \<Longrightarrow> yields d f g (fail e)"
  by (simp_all add: yields_def ret_def fail_def)

lemma yields_panic: "yields d f g (\<lambda>tr. (Panic m, tr))"
  by (simp add: yields_def)

lemma yields_call:
  assumes "\<And>r. yields d (\<lambda>a. f a - d (c, r)) (g - d (c, r)) (k r)"
  shows "yields d f g (call os c k)"
  unfolding yields_def
proof
  fix tr
  show "case call os c k tr of (Ok a, tr') \<Rightarrow> level d tr' = level d tr + f a
     | (Fail e, tr') \<Rightarrow> level d tr' = level d tr + g | (Panic m, tr') \<Rightarrow> True"
    using assms [of "os tr c", unfolded yields_def, rule_format, of "tr @ [(c, os tr c)]"]
    by (simp add: call_def split: prod.splits go_result.splits)
qed

lemma yields_attempt:
  assumes "\<And>e. d (c, Inl e) = g" "\<And>s. yields d (\<lambda>a. f a - d (c, Inr s)) (g - d (c, Inr s)) (k s)"
  shows "yields d f g (attempt os c k)"
  unfolding attempt_def
proof (rule yields_call)
  fix r
  show "yields d (\<lambda>a. f a - d (c, r)) (g - d (c, r)) (case r of Inl e \<Rightarrow> fail e | Inr s \<Rightarrow> k s)"
    using assms by (cases r) (auto simp: yields_fail)
qed

lemma yields_bind:
  assumes "yields d f g p" "\<And>a. yields d (\<lambda>b. h b - f a) (g - f a) (k a)"
  shows "yields d h g (bind p k)"
  unfolding yields_def
proof
  fix tr
  obtain r tr' where p: "p tr = (r, tr')"
    by (cases "p tr")
  show "case bind p k tr of (Ok a, tr') \<Rightarrow> level d tr' = level d tr + h a
     | (Fail e, tr') \<Rightarrow> level d tr' = level d tr + g | (Panic m, tr') \<Rightarrow> True"
  proof (cases r)
    case (Ok a)
    with p assms(1) have "level d tr' = level d tr + f a"
      unfolding yields_def by (auto dest: spec [of _ tr])
    with assms(2) [of a, unfolded yields_def, rule_format, of tr'] p Ok show ?thesis
      by (simp add: bind_def split: prod.splits go_result.splits)
  qed (use p assms(1) in \<open>auto simp: bind_def yields_def dest: spec [of _ tr]\<close>)
qed

lemma level_calls:
  "(\<And>c a. c \<in> set cs \<Longrightarrow> dtakes c a = []) \<Longrightarrow>
   level (dgain r) (perform_all os cs tr) = level (dgain r) tr - (\<Sum>c \<leftarrow> cs. int (count_list (dgives c) r))"
  by (induction cs arbitrary: tr) (simp_all add: dgain_def)

lemma yields_on_error:
  assumes "yields (dgain r) f (g + (\<Sum>c \<leftarrow> cs. int (count_list (dgives c) r))) p" "\<And>c a. c \<in> set cs \<Longrightarrow> dtakes c a = []"
  shows "yields (dgain r) f g (on_error os cs p)"
  unfolding yields_def
proof
  fix tr
  show "case on_error os cs p tr of (Ok a, tr') \<Rightarrow> level (dgain r) tr' = level (dgain r) tr + f a
     | (Fail e, tr') \<Rightarrow> level (dgain r) tr' = level (dgain r) tr + g | (Panic m, tr') \<Rightarrow> True"
    using assms(1) [unfolded yields_def, rule_format, of tr] level_calls [OF assms(2), where tr = "snd (p tr)"]
    by (cases "p tr"; cases "fst (p tr)") (auto simp: on_error_def)
qed

lemma level_emit: "\<forall>c \<in> set cs. dtakes c (Inr []) = [] \<and> dgives c = [] \<Longrightarrow>
   level (dgain r) (map (\<lambda>c. (c, Inr [])) cs) = 0"
  by (induction cs) (simp_all add: dgain_def)

lemma yields_emit:
  assumes "\<forall>c \<in> set cs. dtakes c (Inr []) = [] \<and> dgives c = []" "yields (dgain r) f g p"
  shows "yields (dgain r) f g (emit cs p)"
  unfolding yields_def
proof
  fix tr
  show "case emit cs p tr of (Ok a, tr') \<Rightarrow> level (dgain r) tr' = level (dgain r) tr + f a
     | (Fail e, tr') \<Rightarrow> level (dgain r) tr' = level (dgain r) tr + g | (Panic m, tr') \<Rightarrow> True"
    using assms(2) [unfolded yields_def, rule_format, of "tr @ map (\<lambda>c. (c, Inr [])) cs"]
    by (simp add: emit_def level_emit [OF assms(1)] split: prod.splits go_result.splits)
qed

definition fifo_level :: "dresource \<Rightarrow> string \<Rightarrow> int" where
  "fifo_level r dir = int (count_list (map Fifo (all_fifos dir)) r)"

lemma openFifos_yields:
  assumes "(\<forall>p. r \<noteq> Fifo p) \<or> (\<forall>tr p e. os tr (OpenFifo p) \<noteq> Inl e)"
  shows "yields (dgain r) (\<lambda>_. fifo_level r dir) 0 (openFifos os dir)"
  unfolding yields_def
proof
  fix tr
  show "case openFifos os dir tr of (Ok a, tr') \<Rightarrow> level (dgain r) tr' = level (dgain r) tr + fifo_level r dir
     | (Fail e, tr') \<Rightarrow> level (dgain r) tr' = level (dgain r) tr + 0 | (Panic m, tr') \<Rightarrow> True"
    using assms
    by (auto simp: openFifos_def go_defs dgain_defs fifo_level_def all_fifos_def split: sum.split)
qed

lemma serveContainerIO_yields:
  assumes "(\<forall>p. r \<noteq> Fifo p) \<or> (\<forall>tr p e. os tr (OpenFifo p) \<noteq> Inl e)"
  shows "yields (dgain r) (\<lambda>_. fifo_level r dir + (if r = Socket dir then 1 else 0)) 0 (serveContainerIO os dir)"
  unfolding serveContainerIO_def perform_def
proof (rule yields_bind [OF openFifos_yields [OF assms]], rule yields_call)
  fix a b
  show "yields (dgain r)
     (\<lambda>_. fifo_level r dir + (if r = Socket dir then 1 else 0) - fifo_level r dir - dgain r (ServeIO dir, b))
     (0 - fifo_level r dir - dgain r (ServeIO dir, b)) (ret ())"
    by (rule yields_ret) (auto simp: dgain_defs)
qed

lemma done_calls_gives:
  "(\<Sum>c \<leftarrow> done_calls dir. int (count_list (dgives c) r)) = fifo_level r dir + (if r = Socket dir then 1 else 0)"
  by (auto simp: done_calls_def all_fifos_def dgives_def fifo_level_def)

lemma done_calls_takes: "c \<in> set (done_calls dir) \<Longrightarrow> dtakes c a = []"
  by (auto simp: done_calls_def dtakes_def)

definition exec_level :: "dresource \<Rightarrow> string \<Rightarrow> int" where
  "exec_level r tmp = fifo_level r tmp + (if r = Socket tmp then 1 else 0) + (if r = State tmp then 1 else 0)"

lemma container_yields:
  "yields (dgain r) (\<lambda>a. exec_level r (fst a) - exec_level r tmp) 0
     (attempt os Executable (\<lambda>self. emit ws
        (case ExecContainer env cfg of
           (res, effs) \<Rightarrow> emit (map Ctr effs)
             (case res of Ok cs \<Rightarrow> ret (tmp, self, cs) | Fail e \<Rightarrow> fail e | Panic m \<Rightarrow> (\<lambda>tr. (Panic m, tr))))))"
  if "\<forall>c \<in> set ws. dtakes c (Inr []) = [] \<and> dgives c = []"
proof (rule yields_attempt)
  fix self
  have *: "dgain r (Executable, Inr self) = 0"
    by (simp add: dgain_defs)
  show "yields (dgain r) (\<lambda>a. exec_level r (fst a) - exec_level r tmp - dgain r (Executable, Inr self))
     (0 - dgain r (Executable, Inr self))
     (emit ws (case ExecContainer env cfg of
           (res, effs) \<Rightarrow> emit (map Ctr effs)
             (case res of Ok cs \<Rightarrow> ret (tmp, self, cs) | Fail e \<Rightarrow> fail e | Panic m \<Rightarrow> (\<lambda>tr. (Panic m, tr)))))"
    unfolding * by (rule yields_emit [OF that])
      (auto simp: dgain_defs split: prod.split go_result.split intro!: yields_emit yields_ret yields_fail yields_panic)
qed (simp add: dgain_defs)

lemma dap_exec_yields:
  assumes "(\<forall>p. r \<noteq> Fifo p) \<or> (\<forall>tr p e. os tr (OpenFifo p) \<noteq> Inl e)"
  shows "yields (dgain r) (\<lambda>a. exec_level r (fst a)) 0 (dap_execAction os env img info f)"
proof (cases "xf_i f = xf_tty f")
  case False
  then show ?thesis
    by (auto simp: dap_execAction_def intro: yields_fail)
next
  case True
  let ?ws = "case op_kind_of (rs_op info) of Op_Exec _ \<Rightarrow> []
     | Op_Other \<Rightarrow> [Warn ''container execution on non-RUN instruction is experimental'']"
  have ws: "\<forall>c \<in> set ?ws. dtakes c (Inr []) = [] \<and> dgives c = []"
    by (auto simp: dtakes_def dgives_def split: op_kind.splits)
  let ?ctr = "\<lambda>tmp. attempt os Executable (\<lambda>self. emit ?ws
        (case ExecContainer env (dap_exec_config img info f) of
           (res, effs) \<Rightarrow> emit (map Ctr effs)
             (case res of Ok cs \<Rightarrow> ret (tmp, self, cs) | Fail e \<Rightarrow> fail e | Panic m \<Rightarrow> (\<lambda>tr. (Panic m, tr)))))"
  have "yields (dgain r) (\<lambda>a. exec_level r (fst a))
      0 (attempt os MkTempState (\<lambda>tmp. on_error os [RmTemp tmp]
           (bind (serveContainerIO os tmp) (\<lambda>_. on_error os (done_calls tmp) (?ctr tmp)))))"
  proof (rule yields_attempt)
    fix tmp
    let ?s = "if r = State tmp then 1 else 0 :: int"
    let ?d = "fifo_level r tmp + (if r = Socket tmp then 1 else 0)"
    have temp: "dgain r (MkTempState, Inr tmp) = ?s"
      by (auto simp: dgain_defs)
    have inner: "yields (dgain r) (\<lambda>a. exec_level r (fst a) - ?s - ?d) (0 - ?d)
        (on_error os (done_calls tmp) (?ctr tmp))"
      by (rule yields_on_error)
        (use container_yields [OF ws, of r tmp] in \<open>simp_all add: done_calls_gives done_calls_takes exec_level_def algebra_simps\<close>)
    have "yields (dgain r) (\<lambda>a. exec_level r (fst a) - ?s) 0
        (bind (serveContainerIO os tmp) (\<lambda>_. on_error os (done_calls tmp) (?ctr tmp)))"
      by (rule yields_bind [OF serveContainerIO_yields [OF assms]]) (rule inner)
    then show "yields (dgain r) (\<lambda>a. exec_level r (fst a) - dgain r (MkTempState, Inr tmp)) (0 - dgain r (MkTempState, Inr tmp))
        (on_error os [RmTemp tmp] (bind (serveContainerIO os tmp) (\<lambda>_. on_error os (done_calls tmp) (?ctr tmp))))"
      unfolding temp by (intro yields_on_error) (auto simp: dgives_def dtakes_def)
  qed (simp add: dgain_defs)
  with True show ?thesis
    by (simp add: dap_execAction_def)
qed

section \<open>Properties\<close>

lemma task_cleanup_takes: "c \<in> set (task_cleanup tmp cs) \<Longrightarrow> dtakes c a = []"
  by (auto simp: task_cleanup_def dtakes_def done_calls_def)

lemma task_cleanup_gives:
  "(\<Sum>c \<leftarrow> task_cleanup tmp cs. int (count_list (dgives c) r)) = exec_level r tmp"
  using done_calls_gives [of r tmp]
  by (simp add: task_cleanup_def exec_level_def comp_def dgives_def sum_list_triv)

lemma dap_exec_panic:
  assumes "mounts_registered info"
  shows "no_panic (fst (dap_execAction os env img info f tr))"
proof -
  let ?cfg = "dap_exec_config img info f"
  have "no_panic (container_base ?cfg)"
    using container_base_panic_iff [of ?cfg] assms
    by (auto simp: mounts_registered_def dap_exec_config_def exec_config_def container_mount_ids_def split: if_splits)
  moreover have "cc_no_set_raw ?cfg"
    by (simp add: dap_exec_config_def)
  ultimately have "no_panic (fst (ExecContainer env ?cfg))"
    by (simp add: ExecContainer_panic_iff)
  then obtain r effs where r: "ExecContainer env ?cfg = (r, effs)" "no_panic r"
    by (cases "ExecContainer env ?cfg") auto
  then show ?thesis
    by (cases r) (auto simp: dap_execAction_def on_error_def serveContainerIO_def emit_def openFifos_def go_defs
        split: sum.split)
qed

text \<open>At a step with a result for every mount an \<open>evaluate\<close> does not die before its answer.\<close>

lemma evaluate_answered_if_registered:
  assumes "dd_bctx d = Some b" "mounts_registered (bc_info b)"
  shows "\<not> dies_first L (dap_run_exec os env img cfg tr) rq (Some d)"
proof -
  have "dap_run_exec os env img cfg tr b p \<noteq> Panic m" for p m
    using dap_exec_panic [OF assms(2), of os env img "exec_flags_of p" tr]
    by (auto simp: dap_run_exec_def split: go_result.split)
  with assms(1) show ?thesis
    by (auto simp: dies_first_def split: request_body.split)
qed

text \<open>
  C15. \<open>exec\<close> from a DAP client leaves nothing behind: if the pipes can be opened, then
  after an error the state directory, the pipes and the signal socket are given back at
  once, and after a success by the goroutine that waits for the process. It can only panic
  at a step without a result for every mount.
\<close>

theorem dap_exec_gives_back:
  assumes "\<forall>tr p e. os tr (OpenFifo p) \<noteq> Inl e"
  shows "case dap_execAction os env img info f [] of
     (Ok (tmp, self, cs), tr) \<Rightarrow> level (dgain r) (perform_all os (task_cleanup tmp cs) tr) = 0
   | (Fail e, tr) \<Rightarrow> level (dgain r) tr = 0
   | (Panic m, tr) \<Rightarrow> mounts_registered info = False"
proof -
  obtain res tr where run: "dap_execAction os env img info f [] = (res, tr)"
    by (cases "dap_execAction os env img info f []")
  have y: "case (res, tr) of (Ok a, tr') \<Rightarrow> level (dgain r) tr' = exec_level r (fst a)
     | (Fail e, tr') \<Rightarrow> level (dgain r) tr' = 0 | (Panic m, tr') \<Rightarrow> True"
    using dap_exec_yields [OF disjI2 [OF assms], of r env img info f, unfolded yields_def, THEN spec, of "[]"] run
    by (cases res) auto
  show ?thesis
  proof (cases res)
    case (Ok a)
    obtain tmp self cs where a: "a = (tmp, self, cs)"
      by (cases a)
    have "level (dgain r) (perform_all os (task_cleanup tmp cs) tr) = level (dgain r) tr - exec_level r tmp"
      using level_calls [of "task_cleanup tmp cs" r os tr] task_cleanup_takes task_cleanup_gives by metis
    with y Ok a run show ?thesis
      by simp
  next
    case (Fail e)
    with y run show ?thesis
      by simp
  next
    case (Panic m)
    with dap_exec_panic [of info os env img f "[]"] run show ?thesis
      by auto
  qed
qed

definition calm_os :: "dcall world" where
  "calm_os tr c = (case c of MkTempState \<Rightarrow> Inr ''/tmp/2'' | Executable \<Rightarrow> Inl (ExtErr ''gone'') | _ \<Rightarrow> Inr [])"

definition sample_exec_flags :: exec_flags where
  "sample_exec_flags = \<lparr>xf_args = [], xf_i = True, xf_tty = True, xf_image = False, xf_mountroot = ''/debugroot'',
     xf_init_state = False, xf_env = [], xf_workdir = []\<rparr>"

theorem dap_exec_gives_back_witness:
  "\<exists>e tr. dap_execAction calm_os \<lparr>ee_new_container = None, ee_start = None, ee_console = True, ee_set_raw = None\<rparr> None
       (sample_status None) sample_exec_flags [] = (Fail e, tr) \<and> (MkTempState, Inr ''/tmp/2'') \<in> set tr \<and>
     level (dgain (State ''/tmp/2'')) tr = 0"
proof -
  let ?run = "dap_execAction calm_os \<lparr>ee_new_container = None, ee_start = None, ee_console = True, ee_set_raw = None\<rparr> None
       (sample_status None) sample_exec_flags []"
  have calm: "\<forall>tr p e. calm_os tr (OpenFifo p) \<noteq> Inl e"
    by (simp add: calm_os_def)
  have "\<exists>e tr. ?run = (Fail e, tr) \<and> (MkTempState, Inr ''/tmp/2'') \<in> set tr"
    by (simp add: dap_execAction_def sample_exec_flags_def calm_os_def on_error_def serveContainerIO_def
        openFifos_def done_calls_def all_fifos_def go_defs)
  then obtain e tr where run: "?run = (Fail e, tr)" "(MkTempState, Inr ''/tmp/2'') \<in> set tr"
    by blast
  with dap_exec_gives_back [OF calm, where r = "State ''/tmp/2''"
        and env = "\<lparr>ee_new_container = None, ee_start = None, ee_console = True, ee_set_raw = None\<rparr>" and img = None
        and info = "sample_status None" and f = sample_exec_flags] show ?thesis
    by auto
qed

text \<open>
  When one of the pipes cannot be opened, the pipes opened before it stay open: the
  return statement has set the results to nil before the deferred functions look at them.
\<close>

theorem failed_pipe_leaks_opened:
  assumes "os tr (OpenFifo (fifo_path dir ''stdin'')) = Inr h" "fifo_path dir ''stdin'' \<noteq> fifo_path dir ''stdout''"
    and "os (tr @ [(OpenFifo (fifo_path dir ''stdin''), Inr h)]) (OpenFifo (fifo_path dir ''stdout'')) = Inl e"
  shows "\<exists>tr'. openFifos os dir tr = (Fail (Wrapf ''failed to open stdout fifo: %w'' e), tr') \<and>
     level (dgain (Fifo (fifo_path dir ''stdin''))) tr' = level (dgain (Fifo (fifo_path dir ''stdin''))) tr + 1"
  using assms
  by (simp add: openFifos_def go_defs dgain_defs)

definition no_stdout_os :: "dcall world" where
  "no_stdout_os tr c = (case c of OpenFifo p \<Rightarrow> if p = ''/t/stdin'' then Inr [] else Inl (ExtErr ''EMFILE'') | _ \<Rightarrow> Inr [])"

theorem failed_pipe_leaks_opened_witness:
  "level (dgain (Fifo ''/t/stdin'')) (snd (openFifos no_stdout_os ''/t'' [])) = 1"
proof -
  have paths: "fifo_path ''/t'' ''stdin'' = ''/t/stdin''" "fifo_path ''/t'' ''stdout'' = ''/t/stdout''"
    by code_simp+
  show ?thesis
    using failed_pipe_leaks_opened [of no_stdout_os "[]" "''/t''" "[]" "ExtErr ''EMFILE''"]
    by (auto simp: paths no_stdout_os_def)
qed

text \<open>
  The terminal meets the container: the command that the client is asked to run gets
  the state directory of this container as its last argument, and the pipes that it then
  opens are, in order, the ones that the server opened.
\<close>

theorem terminal_opens_same_pipes:
  assumes "dap_execAction os env img info f [] = (Ok (tmp, self, cs), tr)"
    and "AttachContainerIO os' (last (fst (run_in_terminal (tmp, self, cs) f cfg))) raw False [] = (res, tr')"
    and "\<forall>tr p e. os' tr (OpenFifo p) \<noteq> Inl e" "tmp \<noteq> []"
  shows "hd (fst (run_in_terminal (tmp, self, cs) f cfg)) = self \<and> (MkTempState, Inr tmp) \<in> set tr \<and>
    filter (\<lambda>c. case c of OpenFifo _ \<Rightarrow> True | _ \<Rightarrow> False) (map fst tr) =
    filter (\<lambda>c. case c of OpenFifo _ \<Rightarrow> True | _ \<Rightarrow> False) (map fst tr')"
proof -
  have "filter (\<lambda>c. case c of OpenFifo _ \<Rightarrow> True | _ \<Rightarrow> False) (map fst tr') = map OpenFifo (all_fifos tmp)"
    using assms(2-4)
    by (auto simp: run_in_terminal_def attach_args_def AttachContainerIO_def openFifos_def all_fifos_def go_defs
        split: sum.splits if_splits)
  moreover have "(MkTempState, Inr tmp) \<in> set tr \<and>
      filter (\<lambda>c. case c of OpenFifo _ \<Rightarrow> True | _ \<Rightarrow> False) (map fst tr) = map OpenFifo (all_fifos tmp)"
  proof -
    have ctr: "filter (\<lambda>c. case c of OpenFifo _ \<Rightarrow> True | _ \<Rightarrow> False) (map Ctr effs) = []" for effs
      by (induction effs) simp_all
    show ?thesis
      using assms(1)
      by (auto simp: dap_execAction_def on_error_def serveContainerIO_def openFifos_def emit_def all_fifos_def go_defs
          ctr comp_def split: sum.splits if_splits go_result.splits prod.splits op_kind.splits)
  qed
  ultimately show ?thesis
    by (simp add: run_in_terminal_def attach_args_def)
qed

definition ready_os :: "dcall world" where
  "ready_os tr c = (case c of MkTempState \<Rightarrow> Inr ''/t'' | Executable \<Rightarrow> Inr ''buildg'' | _ \<Rightarrow> Inr [])"

definition one_mount_status :: registered_status where
  "one_mount_status = (sample_status None)\<lparr>rs_mount_ids := [''r'']\<rparr>"

theorem terminal_opens_same_pipes_witness:
  "filter (\<lambda>c. case c of OpenFifo _ \<Rightarrow> True | _ \<Rightarrow> False)
     (map fst (snd (dap_execAction ready_os \<lparr>ee_new_container = None, ee_start = None, ee_console = True, ee_set_raw = None\<rparr> None
        one_mount_status sample_exec_flags []))) =
   filter (\<lambda>c. case c of OpenFifo _ \<Rightarrow> True | _ \<Rightarrow> False) (map fst (snd (AttachContainerIO ready_os ''/t'' True False [])))"
proof -
  let ?env = "\<lparr>ee_new_container = None, ee_start = None, ee_console = True, ee_set_raw = None\<rparr>"
  let ?run = "dap_execAction ready_os ?env None one_mount_status sample_exec_flags []"
  have "case fst ?run of Ok (tmp, self, cs) \<Rightarrow> tmp = ''/t'' | _ \<Rightarrow> False"
    by code_simp
  then obtain self cs where run: "?run = (Ok (''/t'', self, cs), snd ?run)"
    by (cases "fst ?run"; clarsimp split: prod.splits) (metis prod.collapse)
  have ready: "\<forall>tr p e. ready_os tr (OpenFifo p) \<noteq> Inl e"
    by (simp add: ready_os_def)
  have "AttachContainerIO ready_os (last (fst (run_in_terminal (''/t'', self, cs) sample_exec_flags sample_launch))) True False [] =
      (fst (AttachContainerIO ready_os ''/t'' True False []), snd (AttachContainerIO ready_os ''/t'' True False []))"
    by (simp add: run_in_terminal_def attach_args_def)
  from terminal_opens_same_pipes [OF run this ready] show ?thesis
    by simp
qed

lemma sig_loop_Some: "sig_loop entries m s = Some name \<Longrightarrow> (name, s) \<in> set entries \<or> m s = Some name"
proof (induction entries arbitrary: m)
  case (Cons e entries)
  then have "(name, s) \<in> set entries \<or> (m(snd e \<mapsto> fst e)) s = Some name"
    by (metis sig_loop.simps(2))
  then show ?case
    by (cases e) (auto split: if_splits)
qed simp

lemma sig_loop_named: "s \<in> snd ` set entries \<or> m s \<noteq> None \<Longrightarrow> sig_loop entries m s \<noteq> None"
proof (induction entries arbitrary: m)
  case (Cons e entries)
  then have "s \<in> snd ` set entries \<or> (m(snd e \<mapsto> fst e)) s \<noteq> None"
    by auto
  then show ?case
    unfolding sig_loop.simps by (rule Cons.IH)
qed simp

text \<open>
  A signal that the table of signal names knows reaches the container's process unchanged:
  the name under which the terminal posts it stands for the same signal on the server, in
  whatever order either side holds the table, and also when a signal has several names.
\<close>

theorem signals_reach_process:
  assumes "distinct (keys_of entries)" "map_of entries' = map_of entries" "s \<in> snd ` set entries"
  shows "\<exists>name. sigToName entries s = Some name \<and> forward_signal (map_of entries') (Some p) name = Some (p, s)"
proof -
  obtain name where name: "sigToName entries s = Some name"
    using sig_loop_named [of s entries Map.empty] assms(3) by (auto simp: sigToName_def)
  then have "(name, s) \<in> set entries"
    using sig_loop_Some [of entries Map.empty s name] by (simp add: sigToName_def)
  then have "map_of entries' name = Some s"
    using assms(1,2) by simp
  with name show ?thesis
    by (simp add: forward_signal_def)
qed

theorem signals_reach_process_witness:
  "\<exists>name. sigToName [(''ABRT'', 6), (''INT'', 2), (''IOT'', 6)] 6 = Some name \<and>
     forward_signal (map_of [(''IOT'', 6), (''INT'', 2), (''ABRT'', 6)]) (Some 1) name = Some (1, 6)"
  by (rule signals_reach_process) (auto simp: fun_eq_iff)

end
