(* ===== verification/DebugImage.thy ===== *)
theory DebugImage
  imports Session ExecContainer
begin

text \<open>
  The build function that \<open>withDebug\<close> makes (\<open>pkg/buildkit/handler.go\<close>): it starts the event
  loop, solves the debug image, and then runs the build. The solve of the image and the
  build go through the same solver, so that their operations could both stop the build;
  \<open>withDescriptor\<close> marks the operations of the image as not to be debugged.
\<close>

section \<open>The mark\<close>

text \<open>
  \<open>SetImageOption\<close> of \<open>withDescriptor\<close>: the description of the image, nil or a map, gets the
  entries of the option, ranged over in any order.
\<close>

definition SetImageOption :: "(string \<times> string) list \<Rightarrow> (string \<times> string) list option \<Rightarrow> (string \<times> string) list" where
  "SetImageOption opt description =
     fold (\<lambda>(k, v) m. AList.update k v m) opt (case description of None \<Rightarrow> [] | Some m \<Rightarrow> m)"

definition image_option :: "(string \<times> string) list" where
  "image_option = [(''debug'', ''no'')]"

lemma SetImageOption_marks: "(''debug'', ''no'') \<in> set (SetImageOption image_option description)"
proof -
  have "map_of (SetImageOption image_option description) ''debug'' = Some ''no''"
    by (simp add: SetImageOption_def image_option_def)
  then show ?thesis
    by (rule map_of_SomeD)
qed

text \<open>The wrapper leaves out exactly the operations with that entry.\<close>

lemma ResolveOp_marked:
  "(''debug'', ''no'') \<in> set (vx_description v) \<Longrightarrow> ResolveOp (Inl op) v = Inr (op, False)"
  by (auto simp: ResolveOp_def list_ex_iff)

section \<open>The build function\<close>

text \<open>
  Where the build function is: before the image, while the image is solved (with the
  description that its operations carry), in the wrapped build function, or returned.
\<close>

datatype func_at =
    Entered
  | SolvingImage "(string \<times> string) list"
  | InBuild
  | FuncReturned "go_err option"

text \<open>
  \<open>bf_image\<close>: the field \<open>image\<close> of the handler. \<open>bf_marked\<close>, \<open>bf_built\<close>: the vertices that the
  solver may work on, those of the image once its solve has begun, and any once the build
  has begun; work goes on after the function has returned. \<open>bf_stops\<close> (history): the steps
  that stopped, with the image at that moment.
\<close>

record build_func =
  bf_at :: func_at
  bf_image :: "nat option"
  bf_marked :: "(string \<times> string) list option"
  bf_built :: bool
  bf_stops :: "(vertex \<times> nat option) list"

definition func_start :: build_func where
  "func_start = \<lparr>bf_at = Entered, bf_image = None, bf_marked = None, bf_built = False, bf_stops = []\<rparr>"

definition DebuggerImage :: "build_func \<Rightarrow> nat option" where
  "DebuggerImage s = bf_image s"

text \<open>
  The vertices of a definition carry the description that their image option made.
\<close>

definition loaded :: "build_func \<Rightarrow> vertex \<Rightarrow> bool" where
  "loaded s v \<longleftrightarrow> bf_built s \<or> bf_marked s = Some (vx_description v)"

text \<open>
  One rule per way through the function for the name \<open>ref_name\<close> of the debug image, and one for the event loop
  beside it: a wrapped operation that the solver works on may stop the build.
\<close>

inductive func_step :: "string \<Rightarrow> build_func \<Rightarrow> build_func \<Rightarrow> bool" for ref_name :: string where
  no_image: "bf_at s = Entered \<Longrightarrow> ref_name = [] \<Longrightarrow> func_step ref_name s (s\<lparr>bf_at := InBuild, bf_built := True\<rparr>)"
| marshal_error: "bf_at s = Entered \<Longrightarrow> ref_name \<noteq> [] \<Longrightarrow> func_step ref_name s (s\<lparr>bf_at := FuncReturned (Some e)\<rparr>)"
| marshalled: "bf_at s = Entered \<Longrightarrow> ref_name \<noteq> [] \<Longrightarrow> d = SetImageOption image_option None \<Longrightarrow>
    func_step ref_name s (s\<lparr>bf_at := SolvingImage d, bf_marked := Some d\<rparr>)"
| solve_error: "bf_at s = SolvingImage d \<Longrightarrow> func_step ref_name s (s\<lparr>bf_at := FuncReturned (Some e)\<rparr>)"
| solved: "bf_at s = SolvingImage d \<Longrightarrow>
    func_step ref_name s (s\<lparr>bf_at := InBuild, bf_image := Some ref, bf_built := True\<rparr>)"
| built: "bf_at s = InBuild \<Longrightarrow> func_step ref_name s (s\<lparr>bf_at := FuncReturned r\<rparr>)"
| stop: "loaded s v \<Longrightarrow> ResolveOp (Inl ()) v = Inr ((), True) \<Longrightarrow>
    func_step ref_name s (s\<lparr>bf_stops := bf_stops s @ [(v, DebuggerImage s)]\<rparr>)"

definition func_inv :: "string \<Rightarrow> build_func \<Rightarrow> bool" where
  "func_inv ref_name s \<longleftrightarrow>
     (\<forall>d. bf_marked s = Some d \<longrightarrow> (''debug'', ''no'') \<in> set d) \<and>
     (bf_at s = Entered \<longrightarrow> bf_image s = None) \<and> (\<forall>d. bf_at s = SolvingImage d \<longrightarrow> ref_name \<noteq> []) \<and>
     (bf_at s = InBuild \<longrightarrow> bf_built s) \<and> (bf_built s \<longrightarrow> bf_at s \<noteq> Entered \<and> (\<forall>d. bf_at s \<noteq> SolvingImage d)) \<and>
     (bf_built s \<longrightarrow> (bf_image s = None \<longleftrightarrow> ref_name = [])) \<and>
     (\<forall>(v, img) \<in> set (bf_stops s). bf_built s \<and> img = bf_image s \<and> (''debug'', ''no'') \<notin> set (vx_description v))"

lemma func_inv_start: "func_inv ref_name func_start"
  by (simp add: func_inv_def func_start_def)

lemma stop_built: "func_inv ref_name s \<Longrightarrow> loaded s v \<Longrightarrow> ResolveOp (Inl ()) v = Inr ((), True) \<Longrightarrow> bf_built s"
  using ResolveOp_marked [of v "()"] by (auto simp: func_inv_def loaded_def)

lemma func_step_inv: "func_step ref_name s t \<Longrightarrow> func_inv ref_name s \<Longrightarrow> func_inv ref_name t"
proof (induction rule: func_step.induct)
  case (stop s v)
  then show ?case
    using stop_built [OF stop(3,1,2)] ResolveOp_marked [of v "()"] by (auto simp: func_inv_def DebuggerImage_def)
qed (auto simp: func_inv_def SetImageOption_marks)

interpretation func: inv_system "\<lambda>s. s = func_start" "func_step ref_name" "func_inv ref_name" for ref_name
  by unfold_locales (simp add: func_inv_start, rule func_step_inv)

section \<open>Properties\<close>

text \<open>
  C11. When a step stops the build, the debug image is ready: if an image was asked for, the
  handler has it at every stop and keeps it, and \<open>exec --image\<close> there requests a container
  on the root of that image; if none was asked for there is none. In particular the
  operations that fetch the image stop nothing.
\<close>

theorem stops_have_debug_image:
  assumes "reach (\<lambda>s. s = func_start) (func_step ref_name) s" "(v, img) \<in> set (bf_stops s)"
  shows "img = DebuggerImage s \<and> (''debug'', ''no'') \<notin> set (vx_description v) \<and>
    (if ref_name = [] then img = None
     else \<exists>ref. img = Some ref \<and>
       (\<forall>info f mounts. xf_image f \<longrightarrow>
          hd (with_image (exec_config img info f) mounts) = root_mount [] (Some ref)))"
proof -
  have "bf_built s" "img = bf_image s" "(''debug'', ''no'') \<notin> set (vx_description v)" "bf_image s = None \<longleftrightarrow> ref_name = []"
    using func.reach_inv [OF assms(1)] assms(2) by (auto simp: func_inv_def)
  then show ?thesis
    by (auto simp: DebuggerImage_def with_image_def exec_config_def)
qed

definition sample_vertex :: "(string \<times> string) list \<Rightarrow> vertex" where
  "sample_vertex d = \<lparr>vx_name = ''RUN true'', vx_digest = ''v'', vx_description = d,
     vx_op = \<lparr>op_kind_of = Op_Other, op_platform = 0, op_constraints = 0\<rparr>\<rparr>"

text \<open>The image is solved to the reference 7, then a step of the build stops.\<close>

definition image_session :: build_func where
  "image_session = \<lparr>bf_at = InBuild, bf_image = Some 7, bf_marked = Some [(''debug'', ''no'')], bf_built = True,
     bf_stops = [(sample_vertex [], Some 7)]\<rparr>"

lemma image_session_reach: "reach (\<lambda>s. s = func_start) (func_step ''alpine'') image_session"
proof -
  let ?s1 = "func_start\<lparr>bf_at := SolvingImage [(''debug'', ''no'')], bf_marked := Some [(''debug'', ''no'')]\<rparr>"
  let ?s2 = "?s1\<lparr>bf_at := InBuild, bf_image := Some 7, bf_built := True\<rparr>"
  have "func_step ''alpine'' func_start ?s1"
    by (rule marshalled) (simp_all add: func_start_def SetImageOption_def image_option_def)
  moreover have "func_step ''alpine'' ?s1 ?s2"
    by (rule solved [where d = "[(''debug'', ''no'')]"]) simp
  moreover have "func_step ''alpine'' ?s2 (?s2\<lparr>bf_stops := bf_stops ?s2 @ [(sample_vertex [], DebuggerImage ?s2)]\<rparr>)"
    by (rule stop) (simp_all add: loaded_def ResolveOp_def sample_vertex_def)
  ultimately have "reach (\<lambda>s. s = func_start) (func_step ''alpine'')
      (?s2\<lparr>bf_stops := bf_stops ?s2 @ [(sample_vertex [], DebuggerImage ?s2)]\<rparr>)"
    by (intro reach_step [OF reach_step [OF reach_step [OF reach_init]]]) simp
  then show ?thesis
    by (simp add: image_session_def func_start_def DebuggerImage_def)
qed

theorem stops_have_debug_image_witness:
  "(sample_vertex [], Some 7) \<in> set (bf_stops image_session) \<and>
   hd (with_image (exec_config (DebuggerImage image_session) (sample_status None)
         \<lparr>xf_args = [], xf_i = True, xf_tty = True, xf_image = True, xf_mountroot = ''/debugroot'',
          xf_init_state = False, xf_env = [], xf_workdir = []\<rparr>) []) = root_mount [] (Some 7)"
proof -
  have mem: "(sample_vertex [], Some 7) \<in> set (bf_stops image_session)"
    by (simp add: image_session_def)
  show ?thesis
    using stops_have_debug_image [OF image_session_reach mem] mem by auto
qed

text \<open>The other entries of a description stay.\<close>

lemma SetImageOption_keeps:
  "k \<notin> set (keys_of opt) \<Longrightarrow>
   map_of (SetImageOption opt description) k = Option.bind description (\<lambda>m. map_of m k)"
proof -
  have "map_of (fold (\<lambda>(k, v) m. AList.update k v m) es m) k = map_of m k" if "k \<notin> set (keys_of es)"
    for es and m :: "(string \<times> string) list"
    using that by (induction es arbitrary: m) (auto split: prod.split)
  then show "k \<notin> set (keys_of opt) \<Longrightarrow> ?thesis"
    by (simp add: SetImageOption_def split: option.split)
qed

end
