(* ===== verification/Signals.thy ===== *)
theory Signals
  imports ExecContainer "HOL-Library.Word"
begin

text \<open>
  Who gets the signals of the terminal: the signal handler of the session (\<open>signalHandler\<close>
  in \<open>main.go\<close>), which cancels it, or the process of \<open>exec\<close>, to which \<open>watchSignal\<close>
  (\<open>exec.go\<close>) forwards them. Both have a goroutine that takes the signals from a channel
  with one place, into which the runtime puts a signal if it is free and drops it if not.
\<close>

section \<open>Forwarding a signal\<close>

datatype os_signal = SIGWINCH | SIGINT | SIGTERM

datatype proc_action = Resize "32 word" "32 word" | SendSignal os_signal

text \<open>
  The body of the loop. \<open>con\<close>: the process has a console; \<open>dim\<close>: the answer of
  \<open>con.Size()\<close>, width and height of 16 bits, which are converted to 32.
\<close>

definition on_signal :: "bool \<Rightarrow> go_err + 16 word \<times> 16 word \<Rightarrow> os_signal \<Rightarrow> proc_action list" where
  "on_signal con dim ss =
     (case ss of
        SIGWINCH \<Rightarrow>
          if con then (case dim of Inl _ \<Rightarrow> [] | Inr (w, h) \<Rightarrow> [Resize (ucast w) (ucast h)]) else []
      | _ \<Rightarrow> [SendSignal ss])"

section \<open>The system\<close>

text \<open>
  Where \<open>exec\<close> is: not running; the handler is disabled; \<open>watchSignal\<close> has registered its
  channel, started its goroutine and is about to put the first signal; it has returned and
  the process runs; the clean-ups have cancelled the context of the watcher.
\<close>

datatype exec_at = Outside | Shielded | Putting | Attached | CleanedUp

text \<open>
  \<open>sg_*\<close>: the session's handler with its channel; \<open>wt_*\<close>: the watcher of the current \<open>exec\<close>,
  whose goroutine runs until it sees the context done and then takes the channel back.
  History: the signals that came into the watcher's channel, those taken from it with the
  size found, what the process got, and where \<open>exec\<close> was when the last interrupt came into
  the handler's channel.
\<close>

record signals =
  sg_enabled :: bool
  sg_ch :: bool
  sg_cancelled :: bool
  sg_came_at :: exec_at
  ex_at :: exec_at
  wt_notified :: bool
  wt_running :: bool
  wt_done :: bool
  wt_ch :: "os_signal option"
  wt_accepted :: "os_signal list"
  wt_taken :: "(os_signal \<times> (go_err + 16 word \<times> 16 word)) list"
  wt_actions :: "proc_action list"

definition signals_start :: signals where
  "signals_start =
     \<lparr>sg_enabled = True, sg_ch = False, sg_cancelled = False, sg_came_at = Outside, ex_at = Outside,
      wt_notified = False, wt_running = False, wt_done = False, wt_ch = None,
      wt_accepted = [], wt_taken = [], wt_actions = []\<rparr>"

text \<open>The runtime offers a signal to every channel that is registered for it.\<close>

definition offer_handler :: "os_signal \<Rightarrow> signals \<Rightarrow> signals" where
  "offer_handler ss s = (if ss = SIGINT \<and> \<not> sg_ch s then s\<lparr>sg_ch := True, sg_came_at := ex_at s\<rparr> else s)"

definition offer_watcher :: "os_signal \<Rightarrow> signals \<Rightarrow> signals" where
  "offer_watcher ss s =
     (if wt_notified s \<and> wt_ch s = None then s\<lparr>wt_ch := Some ss, wt_accepted := wt_accepted s @ [ss]\<rparr> else s)"

definition take_handler :: "signals \<Rightarrow> signals" where
  "take_handler s = (if \<not> sg_enabled s then s\<lparr>sg_ch := False\<rparr> else s\<lparr>sg_ch := False, sg_cancelled := True\<rparr>)"

inductive signal_step :: "bool \<Rightarrow> signals \<Rightarrow> signals \<Rightarrow> bool" for con :: bool where
  arrive: "signal_step con s (offer_watcher ss (offer_handler ss s))"
| handle: "sg_ch s \<Longrightarrow> signal_step con s (take_handler s)"
| shield: "ex_at s = Outside \<Longrightarrow> signal_step con s (s\<lparr>sg_enabled := False, ex_at := Shielded\<rparr>)"
| register: "ex_at s = Shielded \<Longrightarrow>
    signal_step con s (s\<lparr>ex_at := Putting, wt_notified := True, wt_running := True, wt_done := False, wt_ch := None,
      wt_accepted := [], wt_taken := [], wt_actions := []\<rparr>)"
| put_first: "ex_at s = Putting \<Longrightarrow> wt_ch s = None \<Longrightarrow>
    signal_step con s (s\<lparr>ex_at := Attached, wt_ch := Some SIGWINCH, wt_accepted := wt_accepted s @ [SIGWINCH]\<rparr>)"
| forward: "wt_running s \<Longrightarrow> wt_ch s = Some ss \<Longrightarrow>
    signal_step con s (s\<lparr>wt_ch := None, wt_taken := wt_taken s @ [(ss, dim)],
      wt_actions := wt_actions s @ on_signal con dim ss\<rparr>)"
| clean_up: "ex_at s = Attached \<Longrightarrow> signal_step con s (s\<lparr>ex_at := CleanedUp, wt_done := True\<rparr>)"
| unregister: "wt_running s \<Longrightarrow> wt_done s \<Longrightarrow> signal_step con s (s\<lparr>wt_running := False, wt_notified := False\<rparr>)"
| unshield: "ex_at s = CleanedUp \<or> ex_at s = Shielded \<Longrightarrow>
    signal_step con s (s\<lparr>sg_enabled := True, ex_at := Outside\<rparr>)"

definition in_channel :: "'a option \<Rightarrow> 'a list" where
  "in_channel c = (case c of None \<Rightarrow> [] | Some x \<Rightarrow> [x])"

lemma in_channel_simps [simp]: "in_channel None = []" "in_channel (Some x) = [x]"
  by (simp_all add: in_channel_def)

definition signals_inv :: "bool \<Rightarrow> signals \<Rightarrow> bool" where
  "signals_inv con s \<longleftrightarrow>
     (ex_at s = Putting \<or> ex_at s = Attached \<longrightarrow> wt_running s \<and> \<not> wt_done s) \<and>
     (wt_notified s \<longleftrightarrow> wt_running s) \<and>
     (sg_enabled s \<longleftrightarrow> ex_at s = Outside) \<and>
     map fst (wt_taken s) @ in_channel (wt_ch s) = wt_accepted s \<and>
     (ex_at s = Attached \<longrightarrow> SIGWINCH \<in> set (wt_accepted s)) \<and>
     wt_actions s = concat (map (\<lambda>(ss, dim). on_signal con dim ss) (wt_taken s))"

lemma signals_inv_start: "signals_inv con signals_start"
  by (simp add: signals_inv_def signals_start_def)

lemma signal_step_inv: "signal_step con s t \<Longrightarrow> signals_inv con s \<Longrightarrow> signals_inv con t"
proof (induction rule: signal_step.induct)
  case (arrive s ss)
  then show ?case
    by (auto simp: signals_inv_def offer_watcher_def offer_handler_def)
next
  case (handle s)
  then show ?case
    by (auto simp: signals_inv_def take_handler_def)
qed (auto simp: signals_inv_def)

interpretation sigs: inv_system "\<lambda>s. s = signals_start" "signal_step con" "signals_inv con" for con
  by unfold_locales (simp add: signals_inv_start, rule signal_step_inv)

abbreviation signals_reach :: "bool \<Rightarrow> signals \<Rightarrow> bool" where
  "signals_reach con \<equiv> reach (\<lambda>s. s = signals_start) (signal_step con)"

section \<open>Properties\<close>

lemma resize_needs_console: "Resize w h \<in> set (on_signal con dim ss) \<Longrightarrow> con"
  by (cases ss; cases dim; cases con) (simp_all add: on_signal_def split: prod.splits)

text \<open>
  C28. While the process of \<open>exec\<close> runs, it has the signals and the session does not: the session's
  handler is disabled and the watcher alive; what the process got are the signals that came
  into the watcher's channel, in their order and each once but for the one still in the
  channel, a change of the window as the new size and only with a console; the size is
  passed on at the start; and a signal that finds the channel free can be passed on next.
\<close>

theorem process_gets_signals:
  assumes "signals_reach con s"
  shows "(ex_at s = Attached \<longrightarrow> wt_running s \<and> \<not> sg_enabled s \<and> (wt_ch s = None \<longrightarrow> SIGWINCH \<in> fst ` set (wt_taken s))) \<and>
    (\<exists>rest. wt_accepted s = map fst (wt_taken s) @ rest \<and> length rest \<le> 1) \<and>
    wt_actions s = concat (map (\<lambda>(ss, dim). on_signal con dim ss) (wt_taken s)) \<and>
    (\<not> con \<longrightarrow> (\<forall>w h. Resize w h \<notin> set (wt_actions s))) \<and>
    (\<forall>ss. ex_at s = Attached \<and> wt_ch s = None \<and> ss \<noteq> SIGWINCH \<longrightarrow>
       (\<exists>t. signal_step con (offer_watcher ss (offer_handler ss s)) t \<and>
            wt_actions t = wt_actions s @ [SendSignal ss] \<and> sg_cancelled t = sg_cancelled s))"
proof (intro conjI allI impI)
  have inv: "signals_inv con s"
    using assms by (rule sigs.reach_inv)
  then show "wt_actions s = concat (map (\<lambda>(ss, dim). on_signal con dim ss) (wt_taken s))"
    by (simp add: signals_inv_def)
  then show "Resize w h \<notin> set (wt_actions s)" if "\<not> con" for w h
    using that resize_needs_console by auto
  have acc: "wt_accepted s = map fst (wt_taken s) @ in_channel (wt_ch s)"
    using inv by (simp add: signals_inv_def)
  then show "\<exists>rest. wt_accepted s = map fst (wt_taken s) @ rest \<and> length rest \<le> 1"
    by (intro exI [of _ "in_channel (wt_ch s)"]) (simp add: in_channel_def split: option.split)
  show "wt_running s" "\<not> sg_enabled s" if "ex_at s = Attached"
    using inv that by (simp_all add: signals_inv_def)
  show "SIGWINCH \<in> fst ` set (wt_taken s)" if "ex_at s = Attached" "wt_ch s = None"
    using inv that by (metis acc append_Nil2 in_channel_simps(1) list.set_map signals_inv_def)
  show "\<exists>t. signal_step con (offer_watcher ss (offer_handler ss s)) t \<and>
            wt_actions t = wt_actions s @ [SendSignal ss] \<and> sg_cancelled t = sg_cancelled s"
    if at: "ex_at s = Attached \<and> wt_ch s = None \<and> ss \<noteq> SIGWINCH" for ss
  proof -
    let ?s = "offer_watcher ss (offer_handler ss s)"
    have "wt_running ?s" "wt_ch ?s = Some ss" "wt_actions ?s = wt_actions s" "sg_cancelled ?s = sg_cancelled s"
      using at inv by (auto simp: offer_watcher_def offer_handler_def signals_inv_def)
    moreover have "on_signal con (Inl ErrCanceled) ss = [SendSignal ss]"
      using at by (simp add: on_signal_def split: os_signal.split)
    ultimately show ?thesis
      using forward [of ?s ss con "Inl ErrCanceled"] by (intro exI conjI) (assumption, simp_all)
  qed
qed

text \<open>The process runs in a terminal of 80 columns and 24 lines, and an interrupt has been typed.\<close>

definition attached_session :: signals where
  "attached_session =
     \<lparr>sg_enabled = False, sg_ch = True, sg_cancelled = False, sg_came_at = Attached, ex_at = Attached,
      wt_notified = True, wt_running = True, wt_done = False, wt_ch = Some SIGINT,
      wt_accepted = [SIGWINCH, SIGINT], wt_taken = [(SIGWINCH, Inr (80, 24))], wt_actions = [Resize 80 24]\<rparr>"

lemma attached_session_reach: "signals_reach True attached_session"
proof -
  let ?s0 = signals_start
  let ?s1 = "?s0\<lparr>sg_enabled := False, ex_at := Shielded\<rparr>"
  let ?s2 = "?s1\<lparr>ex_at := Putting, wt_notified := True, wt_running := True, wt_done := False, wt_ch := None,
      wt_accepted := [], wt_taken := [], wt_actions := []\<rparr>"
  let ?s3 = "?s2\<lparr>ex_at := Attached, wt_ch := Some SIGWINCH, wt_accepted := wt_accepted ?s2 @ [SIGWINCH]\<rparr>"
  let ?s4 = "?s3\<lparr>wt_ch := None, wt_taken := wt_taken ?s3 @ [(SIGWINCH, Inr (80, 24))],
      wt_actions := wt_actions ?s3 @ on_signal True (Inr (80, 24)) SIGWINCH\<rparr>"
  have "signal_step True ?s0 ?s1"
    by (rule shield) (simp add: signals_start_def)
  moreover have "signal_step True ?s1 ?s2"
    by (rule register) simp
  moreover have "signal_step True ?s2 ?s3"
    by (rule put_first) simp_all
  moreover have "signal_step True ?s3 ?s4"
    by (rule forward) simp_all
  ultimately have "signals_reach True ?s4"
    by (intro reach_step [OF reach_step [OF reach_step [OF reach_step [OF reach_init]]]]) simp
  then have "signals_reach True (offer_watcher SIGINT (offer_handler SIGINT ?s4))"
    using arrive by (rule reach_step)
  then show ?thesis
    by (simp add: attached_session_def signals_start_def offer_watcher_def offer_handler_def on_signal_def)
qed

theorem process_gets_signals_witness:
  "wt_running attached_session \<and> \<not> sg_enabled attached_session \<and>
   wt_actions attached_session = concat (map (\<lambda>(ss, dim). on_signal True dim ss) (wt_taken attached_session))"
  using process_gets_signals [OF attached_session_reach] by (simp add: attached_session_def)

text \<open>
  The shield has a gap: an interrupt that came while the process had the signals, and was
  passed on to it, still cancels the session when the handler's goroutine takes it from its
  channel only after \<open>exec\<close> has enabled the handler again.
\<close>

theorem late_interrupt_cancels_session:
  "\<exists>s. signals_reach True s \<and> sg_cancelled s \<and> sg_came_at s = Attached \<and> SendSignal SIGINT \<in> set (wt_actions s)"
proof -
  let ?s0 = attached_session
  let ?s1 = "?s0\<lparr>wt_ch := None, wt_taken := wt_taken ?s0 @ [(SIGINT, Inl ErrCanceled)],
      wt_actions := wt_actions ?s0 @ on_signal True (Inl ErrCanceled) SIGINT\<rparr>"
  let ?s2 = "?s1\<lparr>ex_at := CleanedUp, wt_done := True\<rparr>"
  let ?s3 = "?s2\<lparr>sg_enabled := True, ex_at := Outside\<rparr>"
  have "signal_step True ?s0 ?s1"
    by (rule forward) (simp_all add: attached_session_def)
  moreover have "signal_step True ?s1 ?s2"
    by (rule clean_up) (simp add: attached_session_def)
  moreover have "signal_step True ?s2 ?s3"
    by (rule unshield) simp
  moreover have "signal_step True ?s3 (take_handler ?s3)"
    by (rule handle) (simp add: attached_session_def)
  ultimately have reach: "signals_reach True (take_handler ?s3)"
    by (intro reach_step [OF reach_step [OF reach_step [OF reach_step [OF attached_session_reach]]]])
  show ?thesis
    by (rule exI [of _ "take_handler ?s3"])
      (use reach in \<open>simp add: take_handler_def attached_session_def on_signal_def\<close>)
qed

end
