(* ===== verification/DapServe.thy ===== *)
theory DapServe
  imports DapServer
begin

text \<open>
  The loop of \<open>Serve\<close> (\<open>pkg/dap/dap.go\<close>): every request that is read is handled in a
  goroutine of its own. Only \<open>setBreakpoints\<close> writes the store of breakpoints, and the store
  (\<open>pkg/buildkit/breakpoint.go\<close>) has no lock, so the handlers of two such requests interleave
  between their single accesses to it. Here a step is one access: a test, a read or a write
  of a field of the store, the look-up in a map, and the two ends of a write to a map, for Go
  ends the process when it finds a map in use by another goroutine during a write. A load of
  the pointer to the map and the use of the map are one step; what can go wrong here can go
  wrong in the program, but of overlapping handlers nothing is claimed to be impossible.
  The look-ups that the event loop makes in the store while the build runs are left out.
\<close>

section \<open>The shared store\<close>

text \<open>
  \<open>sm_maps\<close> are the maps made so far, which pointers refer to by their position; a handler
  may still write to a map that another has replaced.
\<close>

record shared =
  sm_map :: "nat option"
  sm_maps :: "(string \<times> breakpoint) list list"
  sm_index :: int

definition shared_of :: "breakpoints \<Rightarrow> shared" where
  "shared_of b = \<lparr>sm_map = map_option (\<lambda>_. 0) (bp_map b), sm_maps = [map_entries b], sm_index = bp_index b\<rparr>"

definition store_of :: "shared \<Rightarrow> breakpoints" where
  "store_of m = \<lparr>bp_map = map_option ((!) (sm_maps m)) (sm_map m), bp_index = sm_index m\<rparr>"

text \<open>Where a call of \<open>Add\<close> is.\<close>

datatype add_at =
    NilCheck
  | MakeMap
  | ReadIndex
  | LoadIndex int
  | StoreIndex int int
  | Lookup string
  | Insert string
  | Writing nat string

datatype add_outcome = Goes add_at shared | Returns "go_err + string" shared | Dies string

definition after_make :: "string \<Rightarrow> add_at" where
  "after_make key = (if key = [] then ReadIndex else Lookup key)"

text \<open>One access of \<open>Add\<close>. \<open>used a\<close>: another goroutine is writing to map \<open>a\<close>.\<close>

primrec add_step :: "(nat \<Rightarrow> bool) \<Rightarrow> string \<Rightarrow> breakpoint \<Rightarrow> add_at \<Rightarrow> shared \<Rightarrow> add_outcome" where
  "add_step used key bp NilCheck m = Goes (if sm_map m = None then MakeMap else after_make key) m"
| "add_step used key bp MakeMap m =
     Goes (after_make key) (m\<lparr>sm_map := Some (length (sm_maps m)), sm_maps := sm_maps m @ [[]]\<rparr>)"
| "add_step used key bp ReadIndex m = Goes (LoadIndex (sm_index m)) m"
| "add_step used key bp (LoadIndex cur) m = Goes (StoreIndex cur (sm_index m)) m"
| "add_step used key bp (StoreIndex cur i) m = Goes (Lookup (show_int cur)) (m\<lparr>sm_index := wrap64 (i + 1)\<rparr>)"
| "add_step used key bp (Lookup k) m =
     (case sm_map m of
        None \<Rightarrow> Goes (Insert k) m
      | Some a \<Rightarrow>
          if used a then Dies ''concurrent map read and map write''
          else (case map_of (sm_maps m ! a) k of
                  Some _ \<Rightarrow> Returns (Inl (Errorf ''breakpoint %q already exists: %v'' [k])) m
                | None \<Rightarrow> Goes (Insert k) m))"
| "add_step used key bp (Insert k) m =
     (case sm_map m of
        None \<Rightarrow> Dies ''assignment to entry in nil map''
      | Some a \<Rightarrow> if used a then Dies ''concurrent map writes'' else Goes (Writing a k) m)"
| "add_step used key bp (Writing a k) m =
     Returns (Inr k) (m\<lparr>sm_maps := (sm_maps m)[a := AList.update k bp (sm_maps m ! a)]\<rparr>)"

section \<open>One request\<close>

text \<open>
  Where the handler of one request is; \<open>LineAdd p todo acc\<close> is the loop over the lines, in the
  call of \<open>Add\<close> for the first of \<open>todo\<close>.
\<close>

datatype set_at =
    ClearMap
  | ClearIndex
  | OnFailAdd add_at
  | LineAdd add_at "int list" "dap_breakpoint list"
  | Answering "dap_breakpoint list"
  | Answered "dap_breakpoint list"

record set_task =
  ts_rq :: request
  ts_name :: string
  ts_lines :: "int list"
  ts_at :: set_at

definition new_task :: "request \<Rightarrow> string \<Rightarrow> int list \<Rightarrow> set_task" where
  "new_task rq name lines = \<lparr>ts_rq = rq, ts_name = name, ts_lines = lines, ts_at = ClearMap\<rparr>"

definition lines_at :: "int list \<Rightarrow> dap_breakpoint list \<Rightarrow> set_at" where
  "lines_at ls acc = (if ls = [] then Answering acc else LineAdd NilCheck ls acc)"

text \<open>What the loop appends for the line \<open>l\<close> after \<open>Add\<close> has returned.\<close>

definition line_added :: "string \<Rightarrow> int \<Rightarrow> go_err + string \<Rightarrow> dap_breakpoint list \<Rightarrow> dap_breakpoint list" where
  "line_added name l r acc =
     (case r of
        Inl e \<Rightarrow> acc
      | Inr key \<Rightarrow>
          (case parse_int64 key of
             None \<Rightarrow> acc
           | Some keyI \<Rightarrow> acc @ [\<lparr>db_id = keyI, db_source = name, db_line = l, db_verified = True\<rparr>]))"

datatype task_outcome = Moves set_at shared "act list" | Crashes string | Finished

definition task_step :: "(nat \<Rightarrow> bool) \<Rightarrow> set_task \<Rightarrow> shared \<Rightarrow> task_outcome" where
  "task_step used t m =
     (case ts_at t of
        ClearMap \<Rightarrow> Moves ClearIndex (m\<lparr>sm_map := None\<rparr>) []
      | ClearIndex \<Rightarrow> Moves (OnFailAdd NilCheck) (m\<lparr>sm_index := 0\<rparr>) []
      | OnFailAdd p \<Rightarrow>
          (case add_step used ''on-fail'' NewOnFailBreakpoint p m of
             Goes p' m' \<Rightarrow> Moves (OnFailAdd p') m' []
           | Returns r m' \<Rightarrow> Moves (lines_at (ts_lines t) []) m' []
           | Dies msg \<Rightarrow> Crashes msg)
      | LineAdd p ls acc \<Rightarrow>
          (case add_step used [] (NewLineBreakpoint (ts_name t) (hd ls)) p m of
             Goes p' m' \<Rightarrow> Moves (LineAdd p' ls acc) m' []
           | Returns r m' \<Rightarrow> Moves (lines_at (tl ls) (line_added (ts_name t) (hd ls) r acc)) m' []
           | Dies msg \<Rightarrow> Crashes msg)
      | Answering acc \<Rightarrow> Moves (Answered acc) m [respond (ts_rq t) (BreakpointsSet acc)]
      | Answered acc \<Rightarrow> Finished)"

section \<open>All requests\<close>

text \<open>
  \<open>sv_unread\<close>: what the client will still send; \<open>sv_tasks\<close>: the handlers started so far, in
  the order of their requests; \<open>sv_sent\<close>: what they have sent; \<open>sv_crash\<close>: the reason, when the
  process has died. The handlers of the other requests neither write the store nor answer
  here. A \<open>patient\<close> client sends a \<open>setBreakpoints\<close> request only when the ones before are
  answered.
\<close>

record serving =
  sv_unread :: "request list"
  sv_store :: shared
  sv_tasks :: "set_task list"
  sv_sent :: "act list"
  sv_crash :: "string option"

definition is_answered :: "set_task \<Rightarrow> bool" where
  "is_answered t = (case ts_at t of Answered _ \<Rightarrow> True | _ \<Rightarrow> False)"

fun writes :: "set_at \<Rightarrow> nat \<Rightarrow> bool" where
  "writes (OnFailAdd (Writing a k)) b = (a = b)"
| "writes (LineAdd (Writing a k) ls acc) b = (a = b)"
| "writes _ b = False"

definition used_by_others :: "set_task list \<Rightarrow> nat \<Rightarrow> nat \<Rightarrow> bool" where
  "used_by_others ts n a = list_ex (\<lambda>i. i \<noteq> n \<and> writes (ts_at (ts ! i)) a) [0..<length ts]"

inductive serve_step :: "bool \<Rightarrow> serving \<Rightarrow> serving \<Rightarrow> bool" for patient where
  read_set: "sv_crash s = None \<Longrightarrow> sv_unread s = rq # rest \<Longrightarrow> rq_body rq = SetBreakpoints name lines \<Longrightarrow>
    patient \<longrightarrow> list_all is_answered (sv_tasks s) \<Longrightarrow>
    serve_step patient s (s\<lparr>sv_unread := rest, sv_tasks := sv_tasks s @ [new_task rq name lines]\<rparr>)"
| read_other: "sv_crash s = None \<Longrightarrow> sv_unread s = rq # rest \<Longrightarrow> \<nexists>name lines. rq_body rq = SetBreakpoints name lines \<Longrightarrow>
    serve_step patient s (s\<lparr>sv_unread := rest\<rparr>)"
| run_task: "sv_crash s = None \<Longrightarrow> n < length (sv_tasks s) \<Longrightarrow>
    task_step (used_by_others (sv_tasks s) n) (sv_tasks s ! n) (sv_store s) = Moves p m acts \<Longrightarrow>
    serve_step patient s (s\<lparr>sv_store := m, sv_tasks := (sv_tasks s)[n := (sv_tasks s ! n)\<lparr>ts_at := p\<rparr>],
                            sv_sent := sv_sent s @ acts\<rparr>)"
| task_dies: "sv_crash s = None \<Longrightarrow> n < length (sv_tasks s) \<Longrightarrow>
    task_step (used_by_others (sv_tasks s) n) (sv_tasks s ! n) (sv_store s) = Crashes msg \<Longrightarrow>
    serve_step patient s (s\<lparr>sv_crash := Some msg\<rparr>)"

definition serve_init :: "debugger \<Rightarrow> serving \<Rightarrow> bool" where
  "serve_init d s \<longleftrightarrow> sv_store s = shared_of (dd_bps d) \<and> sv_tasks s = [] \<and> sv_sent s = [] \<and> sv_crash s = None"

text \<open>The requests one after the other, each as \<open>onSetBreakpointsRequest\<close> does it.\<close>

definition serial_set :: "set_task \<Rightarrow> act list \<times> debugger \<Rightarrow> act list \<times> debugger" where
  "serial_set t st =
     (case onSetBreakpointsRequest (ts_rq t) (ts_name t) (ts_lines t) (snd st) of (acts, d) \<Rightarrow> (fst st @ acts, d))"

section \<open>A call of Add on its own\<close>

definition shared_ok :: "shared \<Rightarrow> bool" where
  "shared_ok m \<longleftrightarrow> (\<forall>a. sm_map m = Some a \<longrightarrow> a < length (sm_maps m))"

lemma shared_of_ok [simp]: "shared_ok (shared_of b)" "store_of (shared_of b) = b"
  by (cases "bp_map b"; simp add: shared_ok_def shared_of_def store_of_def map_entries_def)+

lemma store_of_simps [simp]:
  "bp_map (store_of m) = map_option ((!) (sm_maps m)) (sm_map m)" "bp_index (store_of m) = sm_index m"
  by (simp_all add: store_of_def)

definition made :: "breakpoints \<Rightarrow> breakpoints" where
  "made b = b\<lparr>bp_map := Some (map_entries b)\<rparr>"

definition numbered :: "string \<Rightarrow> breakpoints \<Rightarrow> breakpoints" where
  "numbered key b = (if key = [] then (made b)\<lparr>bp_index := wrap64 (bp_index b + 1)\<rparr> else made b)"

definition add_key :: "string \<Rightarrow> breakpoints \<Rightarrow> string" where
  "add_key key b = (if key = [] then show_int (bp_index b) else key)"

lemma Add_eq:
  "Add b key bp =
     (case map_of (map_entries b) (add_key key b) of
        Some _ \<Rightarrow> (numbered key b, Inl (Errorf ''breakpoint %q already exists: %v'' [add_key key b]))
      | None \<Rightarrow> ((numbered key b)\<lparr>bp_map := Some (AList.update (add_key key b) bp (map_entries b))\<rparr>,
                 Inr (add_key key b)))"
  by (simp add: Add_def numbered_def made_def add_key_def Let_def split: option.split)

text \<open>The store at each place of a call of \<open>Add\<close> that found it as \<open>b\<close>.\<close>

primrec add_ok :: "add_at \<Rightarrow> string \<Rightarrow> breakpoints \<Rightarrow> shared \<Rightarrow> bool" where
  "add_ok NilCheck key b m = (store_of m = b)"
| "add_ok MakeMap key b m = (store_of m = b \<and> bp_map b = None)"
| "add_ok ReadIndex key b m = (store_of m = made b \<and> key = [])"
| "add_ok (LoadIndex cur) key b m = (store_of m = made b \<and> key = [] \<and> cur = bp_index b)"
| "add_ok (StoreIndex cur i) key b m = (store_of m = made b \<and> key = [] \<and> cur = bp_index b \<and> i = bp_index b)"
| "add_ok (Lookup k) key b m = (store_of m = numbered key b \<and> k = add_key key b)"
| "add_ok (Insert k) key b m =
     (store_of m = numbered key b \<and> k = add_key key b \<and> map_of (map_entries b) k = None)"
| "add_ok (Writing a k) key b m =
     (store_of m = numbered key b \<and> k = add_key key b \<and> map_of (map_entries b) k = None \<and> sm_map m = Some a)"

lemma made_map [simp]: "bp_map (made b) = Some (map_entries b)" "bp_map (numbered key b) = Some (map_entries b)"
  "bp_index (made b) = bp_index b"
  by (simp_all add: made_def numbered_def)

lemma store_made:
  "store_of m = numbered key b \<Longrightarrow> \<exists>a. sm_map m = Some a \<and> sm_maps m ! a = map_entries b"
  by (drule arg_cong [of _ _ bp_map]) auto

text \<open>The steps of \<open>Add\<close> without another handler are \<open>Breakpoints.Add\<close>.\<close>

lemma add_step_ok:
  assumes "shared_ok m" "add_ok p key b m" "\<forall>a. \<not> used a"
  shows "case add_step used key bp p m of
     Goes p' m' \<Rightarrow> shared_ok m' \<and> add_ok p' key b m'
   | Returns r m' \<Rightarrow> shared_ok m' \<and> Add b key bp = (store_of m', r)
   | Dies msg \<Rightarrow> False"
proof (cases p)
  case NilCheck
  have "made (store_of m) = store_of m" if "sm_map m = Some a" for a
    using that by (simp add: made_def store_of_def map_entries_def)
  with NilCheck assms show ?thesis
    by (cases "sm_map m") (auto simp: after_make_def numbered_def add_key_def)
next
  case MakeMap
  with assms have b: "store_of m = b" "bp_map b = None"
    by simp_all
  have "store_of (m\<lparr>sm_map := Some (length (sm_maps m)), sm_maps := sm_maps m @ [[]]\<rparr>) = made b"
    using b by (auto simp: made_def store_of_def map_entries_def)
  with MakeMap assms show ?thesis
    by (auto simp: after_make_def numbered_def add_key_def shared_ok_def)
next
  case ReadIndex
  with assms show ?thesis
    by (auto dest: arg_cong [of _ _ bp_index])
next
  case (LoadIndex cur)
  with assms show ?thesis
    by (auto dest: arg_cong [of _ _ bp_index])
next
  case (StoreIndex cur i)
  have "store_of (m\<lparr>sm_index := j\<rparr>) = (store_of m)\<lparr>bp_index := j\<rparr>" for j
    by (simp add: store_of_def)
  with StoreIndex assms show ?thesis
    by (simp add: numbered_def add_key_def shared_ok_def)
next
  case (Lookup k)
  with assms obtain a where "sm_map m = Some a" "sm_maps m ! a = map_entries b"
    using store_made [of m key b] by auto
  with Lookup assms show ?thesis
    by (auto simp: Add_eq split: option.split)
next
  case (Insert k)
  with assms obtain a where "sm_map m = Some a" "sm_maps m ! a = map_entries b"
    using store_made [of m key b] by auto
  with Insert assms show ?thesis
    by auto
next
  case (Writing a k)
  with assms(2) have m: "store_of m = numbered key b" "k = add_key key b" "map_of (map_entries b) (add_key key b) = None"
      "sm_map m = Some a"
    by auto
  then have here: "sm_maps m ! a = map_entries b" "a < length (sm_maps m)"
    using store_made [of m key b] assms(1) by (auto simp: shared_ok_def)
  have "store_of (m\<lparr>sm_maps := (sm_maps m)[a := es]\<rparr>) = (store_of m)\<lparr>bp_map := Some es\<rparr>" for es
    using m(4) here(2) by (simp add: store_of_def)
  then have "store_of (m\<lparr>sm_maps := (sm_maps m)[a := AList.update k bp (sm_maps m ! a)]\<rparr>) =
      (numbered key b)\<lparr>bp_map := Some (AList.update (add_key key b) bp (map_entries b))\<rparr>"
    using m here by simp
  moreover have "Add b key bp = ((numbered key b)\<lparr>bp_map := Some (AList.update (add_key key b) bp (map_entries b))\<rparr>,
      Inr (add_key key b))"
    unfolding Add_eq m(3) by simp
  ultimately show ?thesis
    using Writing assms(1) m(2) by (simp add: shared_ok_def)
qed

section \<open>A handler on its own\<close>

definition target_of :: "set_task \<Rightarrow> breakpoints \<Rightarrow> breakpoints \<times> dap_breakpoint list" where
  "target_of t b =
     set_lines_loop (ts_name t) (ts_lines t) (fst (Add (ClearAll b) ''on-fail'' NewOnFailBreakpoint), [])"

text \<open>The store at each place of a handler that found it as \<open>b\<close>.\<close>

primrec at_ok :: "set_at \<Rightarrow> set_task \<Rightarrow> breakpoints \<Rightarrow> shared \<Rightarrow> bool" where
  "at_ok ClearMap t b m = (store_of m = b)"
| "at_ok ClearIndex t b m = (store_of m = b\<lparr>bp_map := None\<rparr>)"
| "at_ok (OnFailAdd p) t b m = add_ok p ''on-fail'' (ClearAll b) m"
| "at_ok (LineAdd p ls acc) t b m =
     (ls \<noteq> [] \<and> (\<exists>b'. set_lines_loop (ts_name t) ls (b', acc) = target_of t b \<and> add_ok p [] b' m))"
| "at_ok (Answering acc) t b m = ((store_of m, acc) = target_of t b)"
| "at_ok (Answered acc) t b m = False"

lemma set_lines_loop_Cons:
  "set_lines_loop name (l # ls) (b, acc) =
     (case Add b [] (NewLineBreakpoint name l) of (b', r) \<Rightarrow> set_lines_loop name ls (b', line_added name l r acc))"
  by (simp add: line_added_def split: prod.split sum.split option.split)

lemma serial_set_eq:
  "serial_set t (acts, d) =
     (case target_of t (dd_bps d) of (b, bps) \<Rightarrow> (acts @ [respond (ts_rq t) (BreakpointsSet bps)], d\<lparr>dd_bps := b\<rparr>))"
  by (simp add: serial_set_def onSetBreakpointsRequest_def target_of_def split: prod.split)

lemma task_step_ok:
  assumes "shared_ok m" "at_ok (ts_at t) t b m" "\<forall>a. \<not> used a"
  shows "case task_step used t m of
     Moves p m' acts \<Rightarrow> shared_ok m' \<and>
       (case p of
          Answered acc \<Rightarrow> serial_set t (sent, d\<lparr>dd_bps := b\<rparr>) = (sent @ acts, d\<lparr>dd_bps := store_of m'\<rparr>)
        | _ \<Rightarrow> acts = [] \<and> at_ok p t b m')
   | _ \<Rightarrow> False"
proof (cases "ts_at t")
  case ClearMap
  have "store_of (m\<lparr>sm_map := None\<rparr>) = (store_of m)\<lparr>bp_map := None\<rparr>"
    by (simp add: store_of_def)
  with ClearMap assms show ?thesis
    by (simp add: task_step_def shared_ok_def)
next
  case ClearIndex
  have "store_of (m\<lparr>sm_index := 0\<rparr>) = (store_of m)\<lparr>bp_index := 0\<rparr>"
    by (simp add: store_of_def)
  with ClearIndex assms show ?thesis
    by (simp add: task_step_def shared_ok_def ClearAll_def)
next
  case (OnFailAdd p)
  with add_step_ok [OF assms(1) _ assms(3), of p "''on-fail''" "ClearAll b" NewOnFailBreakpoint] assms(2)
  show ?thesis
    by (cases "add_step used ''on-fail'' NewOnFailBreakpoint p m")
      (auto simp: task_step_def lines_at_def target_of_def)
next
  case (LineAdd p ls acc)
  with assms(2) obtain b' where "ls \<noteq> []" and b': "set_lines_loop (ts_name t) ls (b', acc) = target_of t b" "add_ok p [] b' m"
    by auto
  then obtain l ls' where ls: "ls = l # ls'"
    by (cases ls) auto
  let ?bp = "NewLineBreakpoint (ts_name t) l"
  have step: "task_step used t m = (case add_step used [] ?bp p m of
      Goes p' m' \<Rightarrow> Moves (LineAdd p' ls acc) m' []
    | Returns r m' \<Rightarrow> Moves (lines_at ls' (line_added (ts_name t) l r acc)) m' []
    | Dies msg \<Rightarrow> Crashes msg)"
    using LineAdd ls by (simp add: task_step_def split: add_outcome.split)
  note ok = add_step_ok [OF assms(1) b'(2) assms(3), of ?bp]
  show ?thesis
  proof (cases "add_step used [] ?bp p m")
    case (Goes p' m')
    with ok step b'(1) \<open>ls \<noteq> []\<close> show ?thesis
      by auto
  next
    case (Returns r m')
    with ok have ret: "shared_ok m'" "Add b' [] ?bp = (store_of m', r)"
      by simp_all
    then have "set_lines_loop (ts_name t) ls' (store_of m', line_added (ts_name t) l r acc) = target_of t b"
      using b'(1) unfolding ls set_lines_loop_Cons by simp
    with ret(1) step Returns show ?thesis
      by (auto simp: lines_at_def)
  qed (use ok in simp)
next
  case (Answering acc)
  with assms(1,2) show ?thesis
    by (simp add: task_step_def serial_set_eq) (metis case_prod_conv)
qed (use assms(2) in simp)

section \<open>A client that waits for its answers\<close>

definition asked :: "set_task \<Rightarrow> request \<times> string \<times> int list" where
  "asked t = (ts_rq t, ts_name t, ts_lines t)"

lemma task_update [simp]:
  "serial_set (t\<lparr>ts_at := p\<rparr>) = serial_set t" "asked (t\<lparr>ts_at := p\<rparr>) = asked t"
  "target_of (t\<lparr>ts_at := p\<rparr>) = target_of t"
  by (simp_all add: serial_set_def asked_def target_of_def fun_eq_iff)

lemma at_ok_update [simp]: "at_ok q (t\<lparr>ts_at := p\<rparr>) b m = at_ok q t b m"
  by (cases q) simp_all

text \<open>All requests are answered, or all but the last, which runs alone.\<close>

definition last_runs :: "debugger \<Rightarrow> serving \<Rightarrow> set_task list \<Rightarrow> set_task \<Rightarrow> bool" where
  "last_runs d s ts t \<longleftrightarrow> sv_tasks s = ts @ [t] \<and> list_all is_answered ts \<and>
     (\<exists>b. fold serial_set ts ([], d) = (sv_sent s, d\<lparr>dd_bps := b\<rparr>) \<and> at_ok (ts_at t) t b (sv_store s))"

definition all_done :: "debugger \<Rightarrow> serving \<Rightarrow> bool" where
  "all_done d s \<longleftrightarrow> list_all is_answered (sv_tasks s) \<and>
     fold serial_set (sv_tasks s) ([], d) = (sv_sent s, d\<lparr>dd_bps := store_of (sv_store s)\<rparr>)"

definition serve_inv :: "debugger \<Rightarrow> serving \<Rightarrow> bool" where
  "serve_inv d s \<longleftrightarrow> sv_crash s = None \<and> shared_ok (sv_store s) \<and> (all_done d s \<or> (\<exists>ts t. last_runs d s ts t))"

lemma answered_finished: "is_answered t \<Longrightarrow> task_step used t m = Finished"
  by (auto simp: is_answered_def task_step_def split: set_at.splits)

lemma not_answered: "at_ok (ts_at t) t b m \<Longrightarrow> \<not> is_answered t"
  by (auto simp: is_answered_def split: set_at.splits)

lemma answered_writes: "is_answered t \<Longrightarrow> \<not> writes (ts_at t) a"
  by (auto simp: is_answered_def split: set_at.splits)

lemma alone: "list_all is_answered ts \<Longrightarrow> \<not> used_by_others (ts @ [t]) (length ts) a"
  using answered_writes by (auto simp: used_by_others_def list_ex_iff nth_append list_all_length split: if_splits)

lemma last_step:
  assumes inv: "last_runs d s ts t" "shared_ok (sv_store s)" "sv_crash s = None"
    and n: "n < length (sv_tasks s)" "task_step (used_by_others (sv_tasks s) n) (sv_tasks s ! n) (sv_store s) = r"
      "r \<noteq> Finished"
  shows "\<exists>p m acts. n = length ts \<and> r = Moves p m acts \<and> shared_ok m \<and>
    (let s' = s\<lparr>sv_store := m, sv_tasks := (sv_tasks s)[n := (sv_tasks s ! n)\<lparr>ts_at := p\<rparr>], sv_sent := sv_sent s @ acts\<rparr>
     in all_done d s' \<or> last_runs d s' ts (t\<lparr>ts_at := p\<rparr>))"
proof -
  obtain b where ts: "sv_tasks s = ts @ [t]" "list_all is_answered ts"
      "fold serial_set ts ([], d) = (sv_sent s, d\<lparr>dd_bps := b\<rparr>)" "at_ok (ts_at t) t b (sv_store s)"
    using inv(1) by (auto simp: last_runs_def)
  have "\<not> n < length ts"
    using n(2,3) answered_finished ts(1,2) by (auto simp: nth_append list_all_length)
  with n(1) ts(1) have "n = length ts"
    by simp
  with ts(1) have here: "n = length ts" "sv_tasks s ! n = t"
    by simp_all
  have "\<forall>a. \<not> used_by_others (sv_tasks s) n a"
    using alone [OF ts(2)] by (simp add: ts(1) here(1))
  from task_step_ok [OF inv(2) _ this, of t b "sv_sent s" d] ts(4) n(2,3) here(2)
  obtain p m acts where step: "r = Moves p m acts" "shared_ok m"
      "case p of Answered acc \<Rightarrow> serial_set t (sv_sent s, d\<lparr>dd_bps := b\<rparr>) = (sv_sent s @ acts, d\<lparr>dd_bps := store_of m\<rparr>)
       | _ \<Rightarrow> acts = [] \<and> at_ok p t b m"
    by (cases r) auto
  show ?thesis
  proof (cases "\<exists>acc. p = Answered acc")
    case True
    with step ts here show ?thesis
      by (auto simp: all_done_def is_answered_def)
  next
    case False
    with step(3) have "acts = []" "at_ok p t b m"
      by (cases p; simp)+
    with step ts here show ?thesis
      by (auto simp: last_runs_def)
  qed
qed

lemma serve_step_inv: "serve_step True s u \<Longrightarrow> serve_inv d s \<Longrightarrow> serve_inv d u"
proof (induction rule: serve_step.induct)
  case (read_set s rq rest name lines)
  then have "all_done d s"
    using not_answered by (fastforce simp: serve_inv_def last_runs_def)
  then have "last_runs d (s\<lparr>sv_unread := rest, sv_tasks := sv_tasks s @ [new_task rq name lines]\<rparr>)
      (sv_tasks s) (new_task rq name lines)"
    by (auto simp: last_runs_def all_done_def new_task_def)
  with read_set show ?case
    unfolding serve_inv_def by auto
next
  case (read_other s rq rest)
  then show ?case
    by (auto simp: serve_inv_def all_done_def last_runs_def)
next
  case (run_task s n p m acts)
  have "\<not> all_done d s"
    using run_task(2,3) answered_finished by (auto simp: all_done_def list_all_length)
  then obtain ts t where "last_runs d s ts t" "shared_ok (sv_store s)" "sv_crash s = None"
    using run_task(4) by (auto simp: serve_inv_def)
  from last_step [OF this run_task(2,3)] run_task(1) show ?case
    by (auto simp: serve_inv_def Let_def)
next
  case (task_dies s n msg)
  have "\<not> all_done d s"
    using task_dies(2,3) answered_finished by (auto simp: all_done_def list_all_length)
  then obtain ts t where "last_runs d s ts t" "shared_ok (sv_store s)" "sv_crash s = None"
    using task_dies(4) by (auto simp: serve_inv_def)
  from last_step [OF this task_dies(2,3)] show ?case
    by simp
qed

lemma serve_inv_start: "serve_init d s \<Longrightarrow> serve_inv d s"
  by (auto simp: serve_init_def serve_inv_def all_done_def)

interpretation serve: inv_system "serve_init d" "serve_step True" "serve_inv d" for d
  by unfold_locales (simp add: serve_inv_start, rule serve_step_inv)

text \<open>The accesses that a handler has still to make.\<close>

primrec add_left :: "add_at \<Rightarrow> nat" where
  "add_left NilCheck = 8"
| "add_left MakeMap = 7"
| "add_left ReadIndex = 6"
| "add_left (LoadIndex cur) = 5"
| "add_left (StoreIndex cur i) = 4"
| "add_left (Lookup k) = 3"
| "add_left (Insert k) = 2"
| "add_left (Writing a k) = 1"

primrec at_left :: "set_at \<Rightarrow> int list \<Rightarrow> nat" where
  "at_left ClearMap lines = 8 * length lines + 11"
| "at_left ClearIndex lines = 8 * length lines + 10"
| "at_left (OnFailAdd p) lines = add_left p + 8 * length lines + 1"
| "at_left (LineAdd p ls acc) lines = add_left p + 8 * (length ls - 1) + 1"
| "at_left (Answering acc) lines = 1"
| "at_left (Answered acc) lines = 0"

lemma add_step_left: "add_step used key bp p m = Goes p' m' \<Longrightarrow> add_left p' < add_left p"
  by (cases p) (auto simp: after_make_def split: option.splits if_splits)

lemma add_left_pos: "0 < add_left p"
  by (cases p) simp_all

lemma lines_at_left: "at_left (lines_at ls acc) lines \<le> 8 * length ls + 1"
  by (cases ls) (simp_all add: lines_at_def)

lemma task_step_left:
  assumes "task_step used t m = Moves p m' acts" "at_ok (ts_at t) t b m"
  shows "at_left p (ts_lines t) < at_left (ts_at t) (ts_lines t)"
proof (cases "ts_at t")
  case (OnFailAdd q)
  with assms show ?thesis
    using add_step_left [of used "''on-fail''" NewOnFailBreakpoint q m] add_left_pos [of q]
      lines_at_left [of "ts_lines t" "[]" "ts_lines t"]
    by (fastforce simp: task_step_def split: add_outcome.splits)
next
  case (LineAdd q ls acc)
  then have "ls \<noteq> []"
    using assms(2) by simp
  then have len: "8 * length (tl ls) = 8 * (length ls - 1)"
    by simp
  show ?thesis
  proof (cases "add_step used [] (NewLineBreakpoint (ts_name t) (hd ls)) q m")
    case (Goes q' m2)
    with LineAdd assms(1) add_step_left [OF Goes] show ?thesis
      by (auto simp: task_step_def)
  next
    case (Returns r m2)
    then have "p = lines_at (tl ls) (line_added (ts_name t) (hd ls) r acc)"
      using LineAdd assms(1) by (simp add: task_step_def)
    then have "at_left p (ts_lines t) \<le> 8 * (length ls - 1) + 1"
      using lines_at_left [of "tl ls" "line_added (ts_name t) (hd ls) r acc" "ts_lines t"] len by simp
    then show ?thesis
      using LineAdd add_left_pos [of q] by simp
  qed (use LineAdd assms(1) in \<open>simp add: task_step_def\<close>)
qed (use assms in \<open>auto simp: task_step_def\<close>)

text \<open>The last handler gets to its answer.\<close>

lemma last_finishes:
  "last_runs d s ts t \<Longrightarrow> shared_ok (sv_store s) \<Longrightarrow> sv_crash s = None \<Longrightarrow>
   \<exists>u. (serve_step True)\<^sup>*\<^sup>* s u \<and> list_all is_answered (sv_tasks u) \<and> map asked (sv_tasks u) = map asked (sv_tasks s)"
proof (induction "at_left (ts_at t) (ts_lines t)" arbitrary: s t rule: less_induct)
  case less
  obtain b where ts: "sv_tasks s = ts @ [t]" "at_ok (ts_at t) t b (sv_store s)"
    using less.prems(1) by (auto simp: last_runs_def)
  let ?n = "length ts"
  let ?r = "task_step (used_by_others (sv_tasks s) ?n) (sv_tasks s ! ?n) (sv_store s)"
  have "?r \<noteq> Finished"
    using ts not_answered [OF ts(2)]
    by (auto simp: task_step_def is_answered_def split: set_at.splits add_outcome.splits)
  from last_step [OF less.prems _ refl this] ts(1) obtain p m acts where step: "?r = Moves p m acts" "shared_ok m"
      "all_done d (s\<lparr>sv_store := m, sv_tasks := ts @ [t\<lparr>ts_at := p\<rparr>], sv_sent := sv_sent s @ acts\<rparr>) \<or>
       last_runs d (s\<lparr>sv_store := m, sv_tasks := ts @ [t\<lparr>ts_at := p\<rparr>], sv_sent := sv_sent s @ acts\<rparr>) ts (t\<lparr>ts_at := p\<rparr>)"
    by (auto simp: Let_def)
  let ?u = "s\<lparr>sv_store := m, sv_tasks := ts @ [t\<lparr>ts_at := p\<rparr>], sv_sent := sv_sent s @ acts\<rparr>"
  have go: "serve_step True s ?u"
    using serve_step.run_task [OF less.prems(3) _ step(1), of True] ts(1) by simp
  show ?case
  proof (cases "all_done d ?u")
    case True
    with go ts(1) show ?thesis
      by (intro exI [of _ ?u]) (auto simp: all_done_def)
  next
    case False
    have "at_left p (ts_lines t) < at_left (ts_at t) (ts_lines t)"
      using task_step_left step(1) ts by simp
    then have "\<exists>v. (serve_step True)\<^sup>*\<^sup>* ?u v \<and> list_all is_answered (sv_tasks v) \<and>
        map asked (sv_tasks v) = map asked (sv_tasks ?u)"
      using step False less.prems(3) by (intro less.hyps [of "t\<lparr>ts_at := p\<rparr>"]) simp_all
    then obtain v where "(serve_step True)\<^sup>*\<^sup>* ?u v" "list_all is_answered (sv_tasks v)"
        "map asked (sv_tasks v) = map asked (sv_tasks s)"
      using ts(1) by auto
    with go show ?thesis
      by (meson converse_rtranclp_into_rtranclp)
  qed
qed

section \<open>Properties\<close>


definition set_request :: "string \<Rightarrow> int list \<Rightarrow> request" where
  "set_request name lines = \<lparr>rq_seq = 1, rq_command = ''setBreakpoints'', rq_body = SetBreakpoints name lines\<rparr>"

definition new_server :: "request list \<Rightarrow> serving" where
  "new_server rqs = \<lparr>sv_unread = rqs, sv_store = shared_of NewBreakpoints, sv_tasks = [], sv_sent = [], sv_crash = None\<rparr>"

lemma new_server_reach: "reach (serve_init sample_debugger) (serve_step patient) (new_server rqs)"
  by (rule reach_init) (simp add: serve_init_def new_server_def sample_debugger_def)


section \<open>Requests that overlap\<close>

text \<open>A schedule: which handler makes the next step.\<close>

definition run_at :: "nat \<Rightarrow> serving \<Rightarrow> serving" where
  "run_at n s =
     (if sv_crash s = None \<and> n < length (sv_tasks s)
      then (case task_step (used_by_others (sv_tasks s) n) (sv_tasks s ! n) (sv_store s) of
              Finished \<Rightarrow> s
            | Crashes msg \<Rightarrow> s\<lparr>sv_crash := Some msg\<rparr>
            | Moves p m acts \<Rightarrow>
                s\<lparr>sv_store := m, sv_tasks := (sv_tasks s)[n := (sv_tasks s ! n)\<lparr>ts_at := p\<rparr>],
                  sv_sent := sv_sent s @ acts\<rparr>)
      else s)"

lemma reach_run_at: "reach (serve_init d) (serve_step patient) s \<Longrightarrow> reach (serve_init d) (serve_step patient) (run_at n s)"
  by (auto simp: run_at_def split: task_outcome.split intro: reach_step run_task task_dies)

lemma reach_schedule:
  "reach (serve_init d) (serve_step patient) s \<Longrightarrow> reach (serve_init d) (serve_step patient) (fold run_at ns s)"
  by (induction ns arbitrary: s) (simp_all add: reach_run_at)

text \<open>Two requests, of two and one lines, have been read by a new server.\<close>

definition two_requests :: serving where
  "two_requests = (new_server [])\<lparr>sv_tasks :=
     [new_task (set_request ''a'' [1, 2]) ''a'' [1, 2], new_task (set_request ''b'' [3]) ''b'' [3]]\<rparr>"

lemma two_requests_reach: "reach (serve_init sample_debugger) (serve_step False) two_requests"
proof -
  let ?q = "[set_request ''a'' [1, 2], set_request ''b'' [3]]"
  let ?s1 = "(new_server ?q)\<lparr>sv_unread := tl ?q, sv_tasks := [new_task (hd ?q) ''a'' [1, 2]]\<rparr>"
  have "serve_step False (new_server ?q) ?s1"
    using serve_step.read_set [of "new_server ?q" "hd ?q" "tl ?q" "''a''" "[1, 2]" False]
    by (simp add: new_server_def set_request_def)
  moreover have "serve_step False ?s1 two_requests"
    using serve_step.read_set [of ?s1 "?q ! 1" "[]" "''b''" "[3]" False]
    by (simp add: new_server_def set_request_def two_requests_def)
  ultimately show ?thesis
    using new_server_reach by (meson reach_step)
qed

lemmas schedule_defs = two_requests_def new_server_def new_task_def set_request_def run_at_def task_step_def
  used_by_others_def lines_at_def line_added_def after_make_def shared_of_def NewBreakpoints_def map_entries_def
  NewOnFailBreakpoint_def NewLineBreakpoint_def

text \<open>
  The handlers of two \<open>setBreakpoints\<close> requests that overlap can end the process: when one
  clears the store after the other has found that there is a map, the other writes to a nil
  map, which is a panic; when both write to one map, the runtime ends the process.
\<close>

theorem overlapping_sets_crash:
  "(\<exists>s. reach (serve_init sample_debugger) (serve_step False) s \<and> sv_crash s = Some ''assignment to entry in nil map'') \<and>
   (\<exists>s. reach (serve_init sample_debugger) (serve_step False) s \<and> sv_crash s = Some ''concurrent map writes'')"
proof (intro conjI)
  have "sv_crash (fold run_at [0, 0, 0, 0, 0, 1, 0] two_requests) = Some ''assignment to entry in nil map''"
    by (simp add: schedule_defs)
  then show "\<exists>s. reach (serve_init sample_debugger) (serve_step False) s \<and> sv_crash s = Some ''assignment to entry in nil map''"
    using reach_schedule [OF two_requests_reach] by blast
  have "sv_crash (fold run_at [1, 1, 0, 0, 0, 0, 0, 1, 1, 0, 1] two_requests) = Some ''concurrent map writes''"
    by (simp add: schedule_defs)
  then show "\<exists>s. reach (serve_init sample_debugger) (serve_step False) s \<and> sv_crash s = Some ''concurrent map writes''"
    using reach_schedule [OF two_requests_reach] by blast
qed

text \<open>
  Where it does not end the process, a clearing between two additions starts the numbering
  again, so that one answer reports two breakpoints with the same identifier, both
  verified, of which only one is in the store.
\<close>

definition interleaved :: serving where
  "interleaved = fold run_at (replicate 14 0 @ [1, 1] @ replicate 9 0) two_requests"

theorem concurrent_sets_clash:
  "\<exists>s t bp bp'. reach (serve_init sample_debugger) (serve_step False) s \<and> t \<in> set (sv_tasks s) \<and>
     ts_at t = Answered [bp, bp'] \<and> db_id bp = db_id bp' \<and> db_line bp \<noteq> db_line bp' \<and> db_verified bp \<and>
     (\<forall>k. Get (store_of (sv_store s)) k \<noteq> Some (LineBp (db_source bp) (db_line bp)))"
proof -
  have digits: "show_int 0 = ''0''"
    by code_simp
  have "parse_int64 (show_int 0) = Some 0"
    by (rule parse_int64_show_int) (simp add: in64_def)
  note keys = digits this [unfolded digits]
  let ?bp = "\<lambda>l. \<lparr>db_id = 0, db_source = ''a'', db_line = l, db_verified = True\<rparr>"
  have run: "ts_at (sv_tasks interleaved ! 0) = Answered [?bp 1, ?bp 2]" "length (sv_tasks interleaved) = 2"
    "store_of (sv_store interleaved) = \<lparr>bp_map = Some [(''0'', LineBp ''a'' 2)], bp_index = 1\<rparr>"
    by (simp_all add: interleaved_def schedule_defs keys store_of_def wrap64_def numeral_eq_Suc)
  have "Get (store_of (sv_store interleaved)) k \<noteq> Some (LineBp ''a'' 1)" for k
    unfolding run(3) by (simp add: Get_def map_entries_def)
  moreover have "sv_tasks interleaved ! 0 \<in> set (sv_tasks interleaved)"
    using run(2) by simp
  moreover have "reach (serve_init sample_debugger) (serve_step False) interleaved"
    unfolding interleaved_def by (rule reach_schedule [OF two_requests_reach])
  ultimately show ?thesis
    using run(1)
    by (intro exI [of _ interleaved] exI [of _ "sv_tasks interleaved ! 0"] exI [of _ "?bp 1"] exI [of _ "?bp 2"]) simp
qed

end
