(* ===== verification/TestHelpers.thy ===== *)
theory TestHelpers
  imports Calls Paths Scanner "HOL-Library.Sublist"
begin

text \<open>
  The helpers of \<open>pkg/testutil\<close> that drive the built program: the debug shell behind a
  prompt of its own (\<open>debugshell.go\<close>), its checks of the output, and the DAP server behind a
  pipe (\<open>dap.go\<close>). \<open>t.Fatal\<close> ends the test like an error return ends a function, so it is a
  \<open>Fail\<close>; log lines are left out. The prompt of \<open>newCommandHandler\<close> in \<open>commands.go\<close> is here
  too, since these helpers rely on it.
\<close>

section \<open>Prompt and environment\<close>

definition default_prompt :: string where
  "default_prompt = ''(buildg) ''"

definition command_prompt :: "(string \<Rightarrow> string) \<Rightarrow> string" where
  "command_prompt getenv = (if getenv ''BUILDG_PS1'' \<noteq> [] then getenv ''BUILDG_PS1'' else default_prompt)"

text \<open>
  \<open>os.Getenv\<close> in a process that was started with the list of assignments \<open>env\<close>: \<open>os/exec\<close>
  passes on only the last assignment of each name. A missing name reads as empty.
\<close>

primrec getenv_of :: "string list \<Rightarrow> string \<Rightarrow> string" where
  "getenv_of [] name = []"
| "getenv_of (e # es) name =
     (if \<exists>e' \<in> set es. takeWhile (\<lambda>c. c \<noteq> CHR ''='') e' = name \<and> CHR ''='' \<in> set e' then getenv_of es name
      else if takeWhile (\<lambda>c. c \<noteq> CHR ''='') e = name \<and> CHR ''='' \<in> set e
      then tl (dropWhile (\<lambda>c. c \<noteq> CHR ''='') e)
      else getenv_of es name)"

lemma getenv_of_last:
  assumes "CHR ''='' \<notin> set name"
  shows "getenv_of (es @ [name @ CHR ''='' # v]) name = v"
proof (induction es)
  case Nil
  then show ?case
    using split_first [OF assms, of v] by simp
next
  case (Cons e es)
  then show ?case
    using split_first [OF assms, of v] by simp
qed

section \<open>Checks of an output\<close>

definition stdout_message :: "string \<Rightarrow> string" where
  "stdout_message must =
     concat [''unexpected stdout'', [nl], must, '':'', [nl], ''%s'', [nl], ''got:'', [nl], ''%s'']"

definition OutEqual :: "string \<Rightarrow> string \<Rightarrow> string go_result" where
  "OutEqual stdout s =
     (if s \<noteq> stdout then Fail (Errorf (stdout_message ''wanted'') [s, stdout]) else Ok stdout)"

definition OutNotEqual :: "string \<Rightarrow> string \<Rightarrow> string go_result" where
  "OutNotEqual stdout s =
     (if s = stdout then Fail (Errorf (stdout_message ''must not be'') [s, stdout]) else Ok stdout)"

definition OutContains :: "string \<Rightarrow> string \<Rightarrow> string go_result" where
  "OutContains stdout s =
     (if \<not> sublist s stdout then Fail (Errorf (stdout_message ''must include'') [s, stdout]) else Ok stdout)"

definition OutNotContains :: "string \<Rightarrow> string \<Rightarrow> string go_result" where
  "OutNotContains stdout s =
     (if sublist s stdout then Fail (Errorf (stdout_message ''must NOT include'') [s, stdout]) else Ok stdout)"

section \<open>Options\<close>

record shell_options =
  op_opts :: "string list"
  op_env :: "string list"
  op_rootDir :: string

record cmd_options =
  co_env :: "string list"
  co_globalOpts :: "string list"

datatype shell_option = WithOptions "string list" | WithEnv "string list" | WithRootDir string

datatype cmd_option = WithGlobalOptions "string list" | WithBuildgCmdEnv "string list"

primrec apply_shell_option :: "shell_options \<Rightarrow> shell_option \<Rightarrow> shell_options" where
  "apply_shell_option o' (WithOptions opts) = o'\<lparr>op_opts := op_opts o' @ opts\<rparr>"
| "apply_shell_option o' (WithEnv env) = o'\<lparr>op_env := env\<rparr>"
| "apply_shell_option o' (WithRootDir rootDir) = o'\<lparr>op_rootDir := rootDir\<rparr>"

primrec apply_cmd_option :: "cmd_options \<Rightarrow> cmd_option \<Rightarrow> cmd_options" where
  "apply_cmd_option o' (WithGlobalOptions globalOpts) = o'\<lparr>co_globalOpts := co_globalOpts o' @ globalOpts\<rparr>"
| "apply_cmd_option o' (WithBuildgCmdEnv env) = o'\<lparr>co_env := env\<rparr>"

definition got_shell_options :: "shell_option list \<Rightarrow> shell_options" where
  "got_shell_options opts = foldl apply_shell_option \<lparr>op_opts = [], op_env = [], op_rootDir = []\<rparr> opts"

definition got_cmd_options :: "cmd_option list \<Rightarrow> cmd_options" where
  "got_cmd_options opts = foldl apply_cmd_option \<lparr>co_env = [], co_globalOpts = []\<rparr> opts"

section \<open>Commands\<close>

text \<open>The calls of the helpers; a command is its path, its arguments and its environment.\<close>

record command =
  cm_path :: string
  cm_args :: "string list"
  cm_env :: "string list"

datatype tcall =
    LookPath string
  | MkTemp string string
  | RemoveAll string
  | WriteDockerfile string string
  | NewID
  | OpenStdin
  | StartCommand command
  | RunCommand command
  | ReadPrompt
  | WriteStdin string
  | KillProcess
  | WaitProcess
  | WriteDisconnect
  | CloseConn
  | WaitOrTimeout

definition getBuildgBinary :: "tcall world \<Rightarrow> string list \<Rightarrow> (string \<Rightarrow> (tcall, 'a) prog) \<Rightarrow> (tcall, 'a) prog" where
  "getBuildgBinary os environ k =
     attempt os (LookPath (if getenv_of environ ''TEST_BUILDG_PATH'' \<noteq> [] then getenv_of environ ''TEST_BUILDG_PATH''
                           else ''buildg'')) k"

definition Mirror :: "string \<Rightarrow> string" where
  "Mirror ref = ''ghcr.io/stargz-containers/'' @ ref @ ''-org''"

text \<open>\<open>environ\<close>: the environment of the test process.\<close>

definition BuildgCmd ::
  "tcall world \<Rightarrow> string list \<Rightarrow> string list \<Rightarrow> cmd_option list \<Rightarrow> (command \<Rightarrow> (tcall, 'a) prog) \<Rightarrow> (tcall, 'a) prog" where
  "BuildgCmd os environ args opts k =
     (let gotOpts = got_cmd_options opts
      in getBuildgBinary os environ (\<lambda>p.
           k \<lparr>cm_path = p, cm_args = (co_globalOpts gotOpts @ [''--debug'']) @ args,
              cm_env = environ @ co_env gotOpts\<rparr>))"

record debug_shell =
  sh_prompt :: string
  sh_rootDir :: string
  sh_cleanupRootDir :: "string option"
  sh_command :: command

text \<open>
  \<open>NewDebugShell\<close> up to the first prompt (\<open>ReadPrompt\<close>): with no root given it makes a
  temporary one, and remembers to remove it.
\<close>

definition start_shell ::
  "tcall world \<Rightarrow> string list \<Rightarrow> string \<Rightarrow> shell_options \<Rightarrow> string \<Rightarrow> string option \<Rightarrow> (tcall, debug_shell) prog" where
  "start_shell os environ buildCtx gotOpts rootDir cleanupRootDir =
     BuildgCmd os environ ((''debug'' # op_opts gotOpts) @ [buildCtx])
       [WithBuildgCmdEnv (op_env gotOpts), WithGlobalOptions [''--root='' @ rootDir]]
       (\<lambda>cmd. attempt os NewID (\<lambda>prompt.
          let cmd' = cmd\<lparr>cm_env := cm_env cmd @ [''BUILDG_PS1'' @ ''='' @ prompt]\<rparr>
          in attempt os OpenStdin (\<lambda>_.
             attempt os (StartCommand cmd') (\<lambda>_.
             attempt os ReadPrompt (\<lambda>_.
               ret \<lparr>sh_prompt = prompt, sh_rootDir = rootDir, sh_cleanupRootDir = cleanupRootDir,
                    sh_command = cmd'\<rparr>)))))"

definition NewDebugShell :: "tcall world \<Rightarrow> string list \<Rightarrow> string \<Rightarrow> shell_option list \<Rightarrow> (tcall, debug_shell) prog" where
  "NewDebugShell os environ buildCtx opts =
     (let gotOpts = got_shell_options opts
      in if op_rootDir gotOpts = []
         then attempt os (MkTemp (getenv_of environ ''TEST_BUILDG_TMP_DIR'') ''buildg-test-tmproot'')
                (\<lambda>tmpRoot. start_shell os environ buildCtx gotOpts tmpRoot (Some tmpRoot))
         else start_shell os environ buildCtx gotOpts (op_rootDir gotOpts) None)"

section \<open>Reading up to the prompt\<close>

text \<open>\<open>strings.LastIndex\<close>.\<close>

definition LastIndex :: "string \<Rightarrow> string \<Rightarrow> nat option" where
  "LastIndex s sub = List.find (\<lambda>i. take (length sub) (drop i s) = sub) (rev [0..<Suc (length s)])"

text \<open>
  One turn of the loop of \<open>readUntilPrompt\<close>, at a tick: what the buffer holds then, the error
  of reading it, and whether the process is found to have ended afterwards. Without further
  ticks the loop waits (\<open>None\<close>).
\<close>

record tick =
  tk_got :: string
  tk_err :: "go_err option"
  tk_isDone :: bool

primrec read_loop :: "string \<Rightarrow> tick list \<Rightarrow> string \<Rightarrow> (string \<times> go_err option) option" where
  "read_loop prompt [] out = None"
| "read_loop prompt (t # ts) out =
     (let out' = out @ tk_got t
      in case tk_err t of
           Some e \<Rightarrow> Some (out', Some e)
         | None \<Rightarrow>
             (case LastIndex out' prompt of
                Some i \<Rightarrow> Some (take i out', None)
              | None \<Rightarrow> if tk_isDone t then Some (out', None) else read_loop prompt ts out'))"

definition readUntilPrompt :: "debug_shell \<Rightarrow> tick list \<Rightarrow> (string \<times> go_err option) option" where
  "readUntilPrompt sh ticks = read_loop (sh_prompt sh) ticks []"

text \<open>\<open>Do\<close>: \<open>written\<close> is the error of writing the line; \<open>io_EOF\<close> the error \<open>io.EOF\<close>.\<close>

definition io_EOF :: go_err where
  "io_EOF = ExtErr ''EOF''"

definition shell_Do :: "debug_shell \<Rightarrow> go_err option \<Rightarrow> tick list \<Rightarrow> string go_result option" where
  "shell_Do sh written ticks =
     (case written of
        Some _ \<Rightarrow> Some (Ok [])
      | None \<Rightarrow>
          map_option (\<lambda>(out, err). case err of
              Some e \<Rightarrow> if e \<noteq> io_EOF then Fail (Errvf ''failed to read stdout: %v'' e) else Ok out
            | None \<Rightarrow> Ok out) (readUntilPrompt sh ticks))"

section \<open>Ending\<close>

text \<open>
  \<open>Close\<close>: the last error wins. Reading after \<open>exit\<close> is \<open>ReadPrompt\<close>, only tried when the line
  could be written; its error ends the test there.
\<close>

definition last_error :: "go_err option \<Rightarrow> answer \<Rightarrow> go_err option" where
  "last_error e r = (case r of Inl e' \<Rightarrow> Some e' | Inr _ \<Rightarrow> e)"

definition return_error :: "go_err option \<Rightarrow> (tcall, unit) prog" where
  "return_error e = (case e of Some err \<Rightarrow> fail err | None \<Rightarrow> ret ())"

definition end_shell :: "tcall world \<Rightarrow> string list \<Rightarrow> debug_shell \<Rightarrow> (tcall, unit) prog" where
  "end_shell os environ sh =
     perform os KillProcess
       (call os WaitProcess (\<lambda>waited.
        BuildgCmd os environ [''prune''] [WithGlobalOptions [''--root='' @ sh_rootDir sh]] (\<lambda>cmd.
        call os (RunCommand cmd) (\<lambda>pruned.
          let retErr = last_error (last_error None waited) pruned
          in case sh_cleanupRootDir sh of
               None \<Rightarrow> return_error retErr
             | Some tmpRoot \<Rightarrow> call os (RemoveAll tmpRoot) (\<lambda>r. return_error (last_error retErr r))))))"

definition shell_Close :: "tcall world \<Rightarrow> string list \<Rightarrow> debug_shell \<Rightarrow> (tcall, unit) prog" where
  "shell_Close os environ sh =
     call os (WriteStdin (''exit'' @ [nl])) (\<lambda>w.
       case w of
         Inl _ \<Rightarrow> end_shell os environ sh
       | Inr _ \<Rightarrow>
           call os ReadPrompt (\<lambda>r.
             case r of
               Inl e \<Rightarrow> if e \<noteq> io_EOF then fail (Errvf ''failed to read stdout: %v'' e) else end_shell os environ sh
             | Inr _ \<Rightarrow> end_shell os environ sh))"

text \<open>\<open>NewTempContext\<close> returns the directory, which its \<open>done\<close> removes.\<close>

definition NewTempContext :: "tcall world \<Rightarrow> string \<Rightarrow> (tcall, string) prog" where
  "NewTempContext os dt =
     attempt os (MkTemp [] ''buildg-test-tmpctx'') (\<lambda>tmpCtx.
       call os (WriteDockerfile (Join tmpCtx ''Dockerfile'') dt) (\<lambda>r.
         case r of
           Inl e \<Rightarrow> perform os (RemoveAll tmpCtx) (fail e)
         | Inr _ \<Rightarrow> ret tmpCtx))"

section \<open>The DAP server\<close>

definition dap_args :: "string list \<Rightarrow> string list" where
  "dap_args globalOpts = globalOpts @ [''--debug'', ''dap'', ''serve'']"

definition NewDAPServer :: "tcall world \<Rightarrow> string list \<Rightarrow> cmd_option list \<Rightarrow> (tcall, command) prog" where
  "NewDAPServer os environ opts =
     (let gotOpts = got_cmd_options opts
      in getBuildgBinary os environ (\<lambda>buildgCmd.
           let cmd = \<lparr>cm_path = buildgCmd, cm_args = dap_args (co_globalOpts gotOpts), cm_env = environ @ co_env gotOpts\<rparr>
           in attempt os (StartCommand cmd) (\<lambda>_. ret cmd)))"

text \<open>
  \<open>Close\<close> runs its body once. \<open>exited\<close>: the process is known to have ended. \<open>WaitOrTimeout\<close> is
  the select between the end of the process and three seconds.
\<close>

definition DAPServer_Close :: "tcall world \<Rightarrow> bool \<Rightarrow> bool \<Rightarrow> (tcall, unit) prog" where
  "DAPServer_Close os closed exited =
     (if closed then ret ()
      else if exited then ret ()
      else
        perform os WriteDisconnect
          (perform os CloseConn
             (call os WaitOrTimeout (\<lambda>r.
                case r of
                  Inr _ \<Rightarrow> ret ()
                | Inl _ \<Rightarrow> perform os KillProcess (attempt os WaitProcess (\<lambda>_. ret ()))))))"

definition DAPServer_Wait :: "tcall world \<Rightarrow> (tcall, unit) prog" where
  "DAPServer_Wait os =
     call os WaitProcess (\<lambda>r. perform os CloseConn (case r of Inl e \<Rightarrow> fail e | Inr _ \<Rightarrow> ret ()))"

section \<open>The prompt is found\<close>

lemma LastIndex_None: "LastIndex s sub = None \<longleftrightarrow> \<not> sublist sub s"
proof -
  have "(\<exists>i \<le> length s. take (length sub) (drop i s) = sub) \<longleftrightarrow> sublist sub s"
  proof
    assume "\<exists>i \<le> length s. take (length sub) (drop i s) = sub"
    then obtain i where "take (length sub) (drop i s) = sub"
      by blast
    then have "s = take i s @ sub @ drop (length sub) (drop i s)"
      by (metis append_take_drop_id)
    then show "sublist sub s"
      by (metis sublist_appendI)
  next
    assume "sublist sub s"
    then obtain ps ss where "s = ps @ sub @ ss"
      by (auto simp: sublist_def)
    then show "\<exists>i \<le> length s. take (length sub) (drop i s) = sub"
      by (intro exI [of _ "length ps"]) simp
  qed
  then show ?thesis
    by (auto simp: LastIndex_def find_None_iff less_Suc_eq_le simp del: upt_Suc)
qed

lemma LastIndex_Some: "LastIndex s sub = Some i \<Longrightarrow> take (length sub) (drop i s) = sub"
proof -
  have "List.find P xs = Some x \<Longrightarrow> P x" for P :: "nat \<Rightarrow> bool" and xs x
    by (induction xs) (auto split: if_splits)
  then show "LastIndex s sub = Some i \<Longrightarrow> ?thesis"
    unfolding LastIndex_def by blast
qed

lemma LastIndex_end:
  assumes "sub \<noteq> []" "\<And>p. strict_prefix p (s @ sub) \<Longrightarrow> \<not> sublist sub p"
  shows "LastIndex (s @ sub) sub = Some (length s)"
proof -
  have "sublist sub (s @ sub)"
    by simp
  then obtain i where i: "LastIndex (s @ sub) sub = Some i"
    using LastIndex_None [of "s @ sub" sub] by (cases "LastIndex (s @ sub) sub") auto
  then have at: "take (length sub) (drop i (s @ sub)) = sub"
    by (rule LastIndex_Some)
  have split: "take i (s @ sub) @ sub = take (i + length sub) (s @ sub)"
    using at by (simp only: take_add)
  have "\<not> i + length sub < length (s @ sub)"
  proof
    assume lt: "i + length sub < length (s @ sub)"
    have "prefix (take (i + length sub) (s @ sub)) (s @ sub)"
      by (rule take_is_prefix)
    moreover have "take (i + length sub) (s @ sub) \<noteq> s @ sub"
    proof
      assume "take (i + length sub) (s @ sub) = s @ sub"
      then have "length (take (i + length sub) (s @ sub)) = length (s @ sub)"
        by (simp only:)
      with lt show False
        by (simp only: length_take)
    qed
    ultimately have "strict_prefix (take (i + length sub) (s @ sub)) (s @ sub)"
      by (rule strict_prefixI)
    then have "\<not> sublist sub (take i (s @ sub) @ sub)"
      unfolding split by (rule assms(2))
    then show False
      using sublist_append_leftI by blast
  qed
  moreover have "i + length sub \<le> length (s @ sub)"
    using arg_cong [OF at, of length] assms(1) by (cases "i \<le> length (s @ sub)") auto
  ultimately show ?thesis
    using i by simp
qed

lemma read_loop_chunks:
  assumes "prompt \<noteq> []" "\<And>p. strict_prefix p (output @ prompt) \<Longrightarrow> \<not> sublist prompt p"
    and "list_all (\<lambda>t. tk_err t = None \<and> \<not> tk_isDone t) ticks"
    and "out @ concat (map tk_got ticks) = output @ prompt" "out \<noteq> output @ prompt"
  shows "read_loop prompt ticks out = Some (output, None)"
  using assms(3-)
proof (induction ticks arbitrary: out)
  case (Cons t ts)
  show ?case
  proof (cases "out @ tk_got t = output @ prompt")
    case True
    with Cons.prems LastIndex_end [OF assms(1,2)] show ?thesis
      by (simp add: Let_def)
  next
    case False
    have "prefix (out @ tk_got t) (output @ prompt)"
      using Cons.prems(2) by (metis append.assoc concat.simps(2) list.simps(9) prefixI)
    with False have "LastIndex (out @ tk_got t) prompt = None"
      using assms(2) LastIndex_None by (simp add: strict_prefix_def)
    with Cons False show ?thesis
      by (simp add: Let_def)
  qed
qed simp

section \<open>Properties\<close>

text \<open>
  The helper and the program agree on the prompt: the shell that \<open>NewDebugShell\<close> starts
  prints the prompt that the helper waits for, whatever the environment and the options
  say about it.
\<close>

theorem shell_prints_awaited_prompt:
  assumes "NewDebugShell os environ buildCtx opts tr = (Ok sh, tr')" "sh_prompt sh \<noteq> []"
  shows "command_prompt (getenv_of (cm_env (sh_command sh))) = sh_prompt sh \<and>
    (\<exists>answer. (StartCommand (sh_command sh), answer) \<in> set tr') \<and>
    (\<exists>globals. cm_args (sh_command sh) =
       globals @ [''--debug'', ''debug''] @ op_opts (got_shell_options opts) @ [buildCtx])"
proof -
  have env: "getenv_of (env @ [''BUILDG_PS1'' @ ''='' @ prompt]) ''BUILDG_PS1'' = prompt" for env prompt
    using getenv_of_last [of "''BUILDG_PS1''" env prompt] by simp
  have "(\<exists>env. cm_env (sh_command sh) = env @ [''BUILDG_PS1'' @ ''='' @ sh_prompt sh]) \<and>
    (\<exists>answer. (StartCommand (sh_command sh), answer) \<in> set tr') \<and>
    (\<exists>globals. cm_args (sh_command sh) =
       globals @ [''--debug'', ''debug''] @ op_opts (got_shell_options opts) @ [buildCtx])"
    using assms(1)
    by (auto simp: NewDebugShell_def start_shell_def BuildgCmd_def getBuildgBinary_def Let_def go_defs
        split: if_splits sum.splits)
  with assms(2) env show ?thesis
    unfolding command_prompt_def by metis
qed

text \<open>
  \<open>Do\<close> returns exactly what the command printed before the next prompt, in whatever pieces the
  output arrives, a prompt cut in two included.
\<close>

theorem do_returns_output:
  assumes "sh_prompt sh \<noteq> []" "\<And>p. strict_prefix p (output @ sh_prompt sh) \<Longrightarrow> \<not> sublist (sh_prompt sh) p"
    and "list_all (\<lambda>t. tk_err t = None \<and> \<not> tk_isDone t) ticks"
    and "concat (map tk_got ticks) = output @ sh_prompt sh"
  shows "shell_Do sh None ticks = Some (Ok output)"
proof -
  have "readUntilPrompt sh ticks = Some (output, None)"
    unfolding readUntilPrompt_def by (rule read_loop_chunks [OF assms(1-3)]) (use assms(1,4) in simp_all)
  then show ?thesis
    by (simp add: shell_Do_def)
qed

definition helper_shell :: debug_shell where
  "helper_shell = \<lparr>sh_prompt = ''p>'', sh_rootDir = ''/r'', sh_cleanupRootDir = Some ''/r'',
     sh_command = \<lparr>cm_path = ''buildg'', cm_args = [], cm_env = []\<rparr>\<rparr>"

theorem do_returns_output_witness:
  "shell_Do helper_shell None
     [\<lparr>tk_got = ''ok'', tk_err = None, tk_isDone = False\<rparr>, \<lparr>tk_got = ''p'', tk_err = None, tk_isDone = False\<rparr>,
      \<lparr>tk_got = ''>'', tk_err = None, tk_isDone = False\<rparr>] = Some (Ok ''ok'')"
proof (rule do_returns_output)
  fix p
  assume "strict_prefix p (''ok'' @ sh_prompt helper_shell)"
  then have "CHR ''>'' \<notin> set p"
    by (auto simp: helper_shell_def strict_prefix_def prefix_Cons)
  then show "\<not> sublist (sh_prompt helper_shell) p"
    using set_mono_sublist [of "sh_prompt helper_shell" p] by (auto simp: helper_shell_def)
qed (simp_all add: helper_shell_def)

text \<open>
  A test that starts a shell and closes it without an error leaves no temporary root.
\<close>

fun temp_roots :: "tcall \<times> answer \<Rightarrow> int" where
  "temp_roots (MkTemp _ _, Inr _) = 1"
| "temp_roots (RemoveAll _, Inr _) = - 1"
| "temp_roots _ = 0"

theorem closed_shell_leaves_no_root:
  assumes "NewDebugShell os environ buildCtx opts tr = (Ok sh, tr')" "shell_Close os environ' sh tr' = (Ok (), tr'')"
  shows "level temp_roots tr'' = level temp_roots tr"
proof -
  have "level temp_roots tr' = level temp_roots tr + (if sh_cleanupRootDir sh = None then 0 else 1)"
    using assms(1)
    by (auto simp: NewDebugShell_def start_shell_def BuildgCmd_def getBuildgBinary_def Let_def go_defs
        split: if_splits sum.splits)
  moreover have ended: "level temp_roots t' = level temp_roots t - (if sh_cleanupRootDir sh = None then 0 else 1)"
    if "end_shell os environ' sh t = (Ok (), t')" for t t'
    using that
    by (auto simp: end_shell_def BuildgCmd_def getBuildgBinary_def return_error_def last_error_def Let_def go_defs
        split: sum.splits option.splits)
  have "level temp_roots tr'' = level temp_roots tr' - (if sh_cleanupRootDir sh = None then 0 else 1)"
    using assms(2) ended
    by (auto simp: shell_Close_def go_defs split: sum.splits if_splits)
  ultimately show ?thesis
    by simp
qed

text \<open>A system on which everything works and every name is the same.\<close>

definition works :: "tcall world" where
  "works tr c = Inr ''p>''"

lemma works_shell:
  "\<exists>sh tr. NewDebugShell works [''BUILDG_PS1=x''] ''ctx'' [WithOptions [''-f''], WithEnv [''BUILDG_PS1=y'']] [] = (Ok sh, tr) \<and>
     sh_prompt sh = ''p>'' \<and> sh_cleanupRootDir sh = Some ''p>''"
  by (simp add: NewDebugShell_def start_shell_def BuildgCmd_def getBuildgBinary_def got_shell_options_def Let_def go_defs works_def)

theorem shell_prints_awaited_prompt_witness:
  "\<exists>sh tr. NewDebugShell works [''BUILDG_PS1=x''] ''ctx'' [WithOptions [''-f''], WithEnv [''BUILDG_PS1=y'']] [] = (Ok sh, tr) \<and>
     command_prompt (getenv_of (cm_env (sh_command sh))) = ''p>''"
proof -
  obtain sh tr where sh: "NewDebugShell works [''BUILDG_PS1=x''] ''ctx'' [WithOptions [''-f''], WithEnv [''BUILDG_PS1=y'']] [] = (Ok sh, tr)"
    and prompt: "sh_prompt sh = ''p>''"
    using works_shell by blast
  show ?thesis
    using shell_prints_awaited_prompt [OF sh] sh prompt by auto
qed

theorem closed_shell_leaves_no_root_witness:
  "\<exists>sh tr tr'. NewDebugShell works [] ''ctx'' [] [] = (Ok sh, tr) \<and> shell_Close works [] sh tr = (Ok (), tr') \<and>
     level temp_roots tr' = 0"
proof -
  obtain sh tr where sh: "NewDebugShell works [] ''ctx'' [] [] = (Ok sh, tr)"
    by (simp add: NewDebugShell_def start_shell_def BuildgCmd_def getBuildgBinary_def got_shell_options_def Let_def go_defs works_def)
  obtain tr' where close: "shell_Close works [] sh tr = (Ok (), tr')"
    by (cases "sh_cleanupRootDir sh")
      (simp_all add: shell_Close_def end_shell_def BuildgCmd_def getBuildgBinary_def return_error_def last_error_def Let_def
        go_defs works_def)
  show ?thesis
    using closed_shell_leaves_no_root [OF sh close] sh close by auto
qed

end
