(* ===== verification/Reports.thy ===== *)
theory Reports
  imports Shell
begin

text \<open>
  The reports of \<open>pkg/buildkit/controller.go\<close> as they run side by side: BuildKit executes the
  steps of a build in parallel, each in a goroutine that registers its results one by one in
  the table of the worker. What a registered status looks like at the handler, for each kind
  of step and outcome, is an inductive typing; it is kept by everything that the other
  reports do meanwhile and later.
\<close>

section \<open>One report\<close>

text \<open>
  One round of the loop of \<open>registerResultIDs\<close>: the part under the lock of the table is the
  update of one entry.
\<close>

definition register_one ::
  "('r \<Rightarrow> 'ref option) \<Rightarrow> ('ref \<Rightarrow> string) \<Rightarrow> 'r option \<Rightarrow> nat \<Rightarrow> string list \<Rightarrow> (string \<times> 'ref) list
     \<Rightarrow> (go_err + string list) \<times> (string \<times> 'ref) list" where
  "register_one sys ref_id r i ids refs =
     (case r of
        None \<Rightarrow> (Inr ids, refs)
      | Some res \<Rightarrow>
          (case sys res of
             None \<Rightarrow> (Inl (Errorf ''unexpected type for result, got %T'' []), refs)
           | Some ref \<Rightarrow> (Inr (ids[i := ref_id ref]), AList.update (ref_id ref) ref refs)))"

text \<open>
  Where \<open>notifyAndWait\<close> is: registering the inputs, or the mounts (with the identifiers made
  so far and the next index), returned with an error, or its status goes to the handler.
\<close>

datatype report_at =
    AtInputs nat "string list"
  | AtMounts "string list" nat "string list"
  | Refused go_err
  | Reported registered_status

record 'r report =
  rp_vertex :: vertex
  rp_status :: "'r op_status"
  rp_ident :: string
  rp_at :: report_at

definition report_start :: "'r op_status \<Rightarrow> report_at" where
  "report_start st = AtInputs 0 (replicate (length (st_inputs st)) [])"

definition report_turn ::
  "('r \<Rightarrow> 'ref option) \<Rightarrow> ('ref \<Rightarrow> string) \<Rightarrow> string \<Rightarrow> 'r op_status \<Rightarrow> report_at \<times> (string \<times> 'ref) list
     \<Rightarrow> report_at \<times> (string \<times> 'ref) list" where
  "report_turn sys ref_id ident st ar =
     (case ar of (at, refs) \<Rightarrow>
        case at of
          AtInputs i ids \<Rightarrow>
            if i < length (st_inputs st)
            then (case register_one sys ref_id (st_inputs st ! i) i ids refs of
                    (Inl e, refs') \<Rightarrow> (Refused e, refs')
                  | (Inr ids', refs') \<Rightarrow> (AtInputs (Suc i) ids', refs'))
            else (AtMounts ids 0 (replicate (length (st_mounts st)) []), refs)
        | AtMounts inputIDs i ids \<Rightarrow>
            if i < length (st_mounts st)
            then (case register_one sys ref_id (st_mounts st ! i) i ids refs of
                    (Inl e, refs') \<Rightarrow> (Refused e, refs')
                  | (Inr ids', refs') \<Rightarrow> (AtMounts inputIDs (Suc i) ids', refs'))
            else (Reported \<lparr>rs_name = st_name st, rs_debug_id = ident, rs_input_ids = inputIDs,
                     rs_mount_ids = ids, rs_vertex = st_vertex st, rs_op = st_op st,
                     rs_err = st_err st\<rparr>, refs)
        | _ \<Rightarrow> (at, refs))"

text \<open>Alone a report does what \<open>prepare_status\<close> says in one step.\<close>

lemma register_loop_turn:
  "register_loop sys ref_id (r # rs) i (ids, refs) =
     (case register_one sys ref_id r i ids refs of
        (Inl e, refs') \<Rightarrow> ((ids, Some e), refs')
      | (Inr ids', refs') \<Rightarrow> register_loop sys ref_id rs (Suc i) (ids', refs'))"
  by (simp add: register_one_def split: option.split)

definition report_done :: "(go_err + registered_status) \<times> (string \<times> 'ref) list \<Rightarrow> report_at \<times> (string \<times> 'ref) list" where
  "report_done res = (case res of (Inl e, refs) \<Rightarrow> (Refused e, refs) | (Inr info, refs) \<Rightarrow> (Reported info, refs))"

lemma report_turn_stays [simp]:
  "report_turn sys ref_id ident st (Refused e, refs) = (Refused e, refs)"
  "report_turn sys ref_id ident st (Reported info, refs) = (Reported info, refs)"
  by (simp_all add: report_turn_def)

lemma refused_stays [simp]: "(report_turn sys ref_id ident st ^^ n) (Refused e, refs) = (Refused e, refs)"
  by (induction n) simp_all

lemma turns_loop:
  assumes one: "\<And>i ids refs. i < length all \<Longrightarrow> report_turn sys ref_id ident st (at i ids, refs) =
       (case register_one sys ref_id (all ! i) i ids refs of
          (Inl e, refs') \<Rightarrow> (Refused e, refs')
        | (Inr ids', refs') \<Rightarrow> (at (Suc i) ids', refs'))"
  shows "rs = drop i all \<Longrightarrow> i \<le> length all \<Longrightarrow>
   (report_turn sys ref_id ident st ^^ length rs) (at i ids, refs) =
     (case register_loop sys ref_id rs i (ids, refs) of
        ((_, Some e), refs') \<Rightarrow> (Refused e, refs')
      | ((ids', None), refs') \<Rightarrow> (at (length all) ids', refs'))"
proof (induction rs arbitrary: i ids refs)
  case (Cons r rs)
  then have i: "i < length all"
    by (cases "i < length all") simp_all
  with Cons.prems(1) have r: "all ! i = r" "rs = drop (Suc i) all"
    by (simp_all add: Cons_nth_drop_Suc [symmetric])
  show ?case
  proof (cases "register_one sys ref_id r i ids refs")
    case (Pair res refs')
    with one [OF i, of ids refs] Cons.IH [OF r(2)] i r(1) show ?thesis
      by (cases res) (simp_all add: funpow_Suc_right register_loop_turn del: register_loop.simps funpow.simps)
  qed
qed simp

lemma report_alone:
  "(report_turn sys ref_id ident st ^^ (length (st_inputs st) + length (st_mounts st) + 2))
     (report_start st, refs) = report_done (prepare_status sys ref_id ident st refs)"
proof -
  let ?turn = "report_turn sys ref_id ident st"
  have inputs: "(?turn ^^ length (st_inputs st)) (AtInputs 0 ids, refs) =
      (case register_loop sys ref_id (st_inputs st) 0 (ids, refs) of
        ((_, Some e), refs') \<Rightarrow> (Refused e, refs')
      | ((ids', None), refs') \<Rightarrow> (AtInputs (length (st_inputs st)) ids', refs'))" for ids
    by (rule turns_loop) (simp_all add: report_turn_def)
  have mounts: "(?turn ^^ length (st_mounts st)) (AtMounts inputIDs 0 ids, refs1) =
      (case register_loop sys ref_id (st_mounts st) 0 (ids, refs1) of
        ((_, Some e), refs') \<Rightarrow> (Refused e, refs')
      | ((ids', None), refs') \<Rightarrow> (AtMounts inputIDs (length (st_mounts st)) ids', refs'))" for inputIDs ids refs1
    by (rule turns_loop) (simp_all add: report_turn_def)
  have "length (st_inputs st) + length (st_mounts st) + 2 = Suc (length (st_mounts st) + Suc (length (st_inputs st)))"
    by simp
  then have "(?turn ^^ (length (st_inputs st) + length (st_mounts st) + 2)) x =
      ?turn ((?turn ^^ length (st_mounts st)) (?turn ((?turn ^^ length (st_inputs st)) x)))" for x
    by (simp only: funpow.simps funpow_add o_apply)
  then show ?thesis
    by (simp add: report_start_def inputs mounts prepare_status_def registerResultIDs_def report_done_def
        report_turn_def [of _ _ _ _ "(AtInputs _ _, _)"] report_turn_def [of _ _ _ _ "(AtMounts _ _ _, _)"]
        split: prod.split option.split)
qed

section \<open>All reports of a worker\<close>

text \<open>
  The worker's table and the reports so far. A report begins with a step that was executed
  (\<open>exec_status\<close>, with whatever outcome) or found in the cache (\<open>cache_status\<close>); any report may
  run next.
\<close>

record ('r, 'ref) worker_state =
  wk_refs :: "(string \<times> 'ref) list"
  wk_reports :: "'r report list"

definition worker_start :: "('r, 'ref) worker_state \<Rightarrow> bool" where
  "worker_start w \<longleftrightarrow> wk_refs w = [] \<and> wk_reports w = []"

definition new_report :: "vertex \<Rightarrow> 'r op_status \<Rightarrow> string \<Rightarrow> 'r report" where
  "new_report v st ident = \<lparr>rp_vertex = v, rp_status = st, rp_ident = ident, rp_at = report_start st\<rparr>"

inductive report_step ::
  "('r \<Rightarrow> 'ref option) \<Rightarrow> ('ref \<Rightarrow> string) \<Rightarrow> ('r \<Rightarrow> 'r) \<Rightarrow> (go_err \<Rightarrow> ('r option list \<times> 'r option list) option)
     \<Rightarrow> ('r, 'ref) worker_state \<Rightarrow> ('r, 'ref) worker_state \<Rightarrow> bool"
  for sys :: "'r \<Rightarrow> 'ref option" and ref_id :: "'ref \<Rightarrow> string" and clone :: "'r \<Rightarrow> 'r"
    and exec_err :: "go_err \<Rightarrow> ('r option list \<times> 'r option list) option"
where
  executed: "report_step sys ref_id clone exec_err w
     (w\<lparr>wk_reports := wk_reports w @ [new_report v (exec_status clone exec_err v inputs outcome) ident]\<rparr>)"
| cached: "report_step sys ref_id clone exec_err w
     (w\<lparr>wk_reports := wk_reports w @ [new_report v (cache_status clone v inputs outputs) ident]\<rparr>)"
| turn: "i < length (wk_reports w) \<Longrightarrow> rp = wk_reports w ! i \<Longrightarrow>
     report_turn sys ref_id (rp_ident rp) (rp_status rp) (rp_at rp, wk_refs w) = (at, refs) \<Longrightarrow>
     report_step sys ref_id clone exec_err w
       (w\<lparr>wk_refs := refs, wk_reports := (wk_reports w)[i := rp\<lparr>rp_at := at\<rparr>]\<rparr>)"

section \<open>The typing\<close>

text \<open>
  An identifier is empty or known to the worker. For a RUN step that was executed or cached,
  there is an initial and a final one per mount; another step has no initial ones and
  at most one final one; a failed step has those that its error carries.
\<close>

definition id_known :: "('ref \<Rightarrow> string) \<Rightarrow> (string \<times> 'ref) list \<Rightarrow> string \<Rightarrow> bool" where
  "id_known ref_id refs k \<longleftrightarrow> k = [] \<or> (\<exists>ref. WorkerRefByID refs k = Some ref \<and> ref_id ref = k)"

inductive shape :: "(go_err \<Rightarrow> ('r option list \<times> 'r option list) option) \<Rightarrow> pb_op \<Rightarrow> go_err option \<Rightarrow> nat \<Rightarrow> nat \<Rightarrow> bool"
  for exec_err :: "go_err \<Rightarrow> ('r option list \<times> 'r option list) option"
where
  shape_run: "op_kind_of op = Op_Exec ex \<Longrightarrow> shape exec_err op None (length (ex_mounts ex)) (length (ex_mounts ex))"
| shape_other: "op_kind_of op = Op_Other \<Longrightarrow> n \<le> 1 \<Longrightarrow> shape exec_err op None 0 n"
| shape_failed: "exec_err e = Some (ins, mounts) \<Longrightarrow> shape exec_err op (Some e) (length ins) (length mounts)"
| shape_not_run: "exec_err e = None \<Longrightarrow> shape exec_err op (Some e) 0 0"

inductive_cases shape_succeeded: "shape exec_err op None m n"
inductive_cases shape_failure: "shape exec_err op (Some e) m n"

definition status_typed ::
  "(go_err \<Rightarrow> ('r option list \<times> 'r option list) option) \<Rightarrow> ('ref \<Rightarrow> string) \<Rightarrow> (string \<times> 'ref) list
     \<Rightarrow> registered_status \<Rightarrow> bool" where
  "status_typed exec_err ref_id refs info \<longleftrightarrow>
     shape exec_err (rs_op info) (rs_err info) (length (rs_input_ids info)) (length (rs_mount_ids info)) \<and>
     list_all (id_known ref_id refs) (rs_input_ids info @ rs_mount_ids info)"

text \<open>Both kinds of report have the shape of their step and outcome.\<close>

lemma exec_status_shape:
  "shape exec_err (st_op (exec_status clone exec_err v inputs outcome)) (st_err (exec_status clone exec_err v inputs outcome))
     (length (st_inputs (exec_status clone exec_err v inputs outcome)))
     (length (st_mounts (exec_status clone exec_err v inputs outcome)))"
proof (cases outcome)
  case (Pair outputs err)
  show ?thesis
  proof (cases err)
    case None
    show ?thesis
    proof (cases "op_kind_of (vx_op v)")
      case (Op_Exec ex)
      with Pair None show ?thesis
        by (simp add: exec_status_def getResultMounts_exec shape_run)
    next
      case Op_Other
      with Pair None show ?thesis
        by (simp add: exec_status_def getResultMounts_def shape_other)
    qed
  next
    case (Some e)
    with Pair show ?thesis
      by (cases "exec_err e") (auto simp: exec_status_def split: prod.split intro: shape_failed shape_not_run)
  qed
qed

lemma cache_status_shape:
  fixes clone :: "'r \<Rightarrow> 'r" and exec_err :: "go_err \<Rightarrow> ('r option list \<times> 'r option list) option"
  shows "shape exec_err (st_op (cache_status clone v inputs outputs)) (st_err (cache_status clone v inputs outputs))
     (length (st_inputs (cache_status clone v inputs outputs))) (length (st_mounts (cache_status clone v inputs outputs)))"
  using exec_status_shape [of exec_err clone v inputs "(outputs, None)"]
  by (simp add: exec_status_def cache_status_def split: prod.splits)

section \<open>It is kept\<close>

definition at_typed :: "('ref \<Rightarrow> string) \<Rightarrow> (string \<times> 'ref) list \<Rightarrow> 'r report \<Rightarrow> bool" where
  "at_typed ref_id refs rp \<longleftrightarrow>
     (let ids_ok = (\<lambda>rs ids. length ids = length rs \<and> list_all (id_known ref_id refs) ids)
      in case rp_at rp of
           AtInputs i ids \<Rightarrow> ids_ok (st_inputs (rp_status rp)) ids
         | AtMounts inputIDs i ids \<Rightarrow> ids_ok (st_inputs (rp_status rp)) inputIDs \<and> ids_ok (st_mounts (rp_status rp)) ids
         | Refused e \<Rightarrow> True
         | Reported info \<Rightarrow> ids_ok (st_inputs (rp_status rp)) (rs_input_ids info) \<and>
             ids_ok (st_mounts (rp_status rp)) (rs_mount_ids info) \<and>
             rs_op info = st_op (rp_status rp) \<and> rs_err info = st_err (rp_status rp) \<and>
             rs_vertex info = st_vertex (rp_status rp) \<and> rs_debug_id info = rp_ident rp)"

definition report_inv ::
  "('ref \<Rightarrow> string) \<Rightarrow> (go_err \<Rightarrow> ('r option list \<times> 'r option list) option) \<Rightarrow> ('r, 'ref) worker_state \<Rightarrow> bool" where
  "report_inv ref_id exec_err w \<longleftrightarrow> refs_ok ref_id (wk_refs w) \<and>
     list_all (\<lambda>rp. at_typed ref_id (wk_refs w) rp \<and> st_vertex (rp_status rp) = vx_digest (rp_vertex rp) \<and>
        st_op (rp_status rp) = vx_op (rp_vertex rp) \<and>
        shape exec_err (st_op (rp_status rp)) (st_err (rp_status rp))
          (length (st_inputs (rp_status rp))) (length (st_mounts (rp_status rp)))) (wk_reports w)"

lemma id_known_update:
  "refs_ok ref_id refs \<Longrightarrow> id_known ref_id refs k \<Longrightarrow> id_known ref_id (AList.update (ref_id ref) ref refs) k"
  by (auto simp: id_known_def WorkerRefByID_def)

lemma id_known_new: "id_known ref_id (AList.update (ref_id ref) ref refs) (ref_id ref)"
  by (simp add: id_known_def WorkerRefByID_def)

lemma list_all_update: "list_all P xs \<Longrightarrow> P x \<Longrightarrow> list_all P (xs[i := x])"
  by (auto simp: list_all_iff dest: set_update_subset_insert [THEN subsetD])

lemma register_one_keeps:
  assumes "register_one sys ref_id r i ids refs = (res, refs')" "refs_ok ref_id refs"
  shows "refs_ok ref_id refs'" "id_known ref_id refs k \<Longrightarrow> id_known ref_id refs' k"
    "res = Inr ids' \<Longrightarrow> list_all (id_known ref_id refs) ids \<Longrightarrow>
       list_all (id_known ref_id refs') ids' \<and> length ids' = length ids"
  using assms
  by (auto simp: register_one_def refs_ok_update id_known_update id_known_new
      intro!: list_all_update elim: list.pred_mono_strong split: option.splits)


lemma at_typed_mono:
  assumes "at_typed ref_id refs rp" "\<And>k. id_known ref_id refs k \<Longrightarrow> id_known ref_id refs' k"
  shows "at_typed ref_id refs' rp"
  using assms by (cases "rp_at rp") (auto simp: at_typed_def Let_def elim!: list.pred_mono_strong)

lemma report_turn_keeps:
  assumes "report_turn sys ref_id (rp_ident rp) (rp_status rp) (rp_at rp, refs) = (at, refs')"
    and "refs_ok ref_id refs" "at_typed ref_id refs rp"
  shows "refs_ok ref_id refs'" "\<And>k. id_known ref_id refs k \<Longrightarrow> id_known ref_id refs' k"
    "at_typed ref_id refs' (rp\<lparr>rp_at := at\<rparr>)"
proof -
  have all: "refs_ok ref_id refs' \<and> (\<forall>k. id_known ref_id refs k \<longrightarrow> id_known ref_id refs' k) \<and>
      at_typed ref_id refs' (rp\<lparr>rp_at := at\<rparr>)"
  proof (cases "rp_at rp")
    case (AtInputs i ids)
    show ?thesis
    proof (cases "i < length (st_inputs (rp_status rp))")
      case True
      obtain res r' where one: "register_one sys ref_id (st_inputs (rp_status rp) ! i) i ids refs = (res, r')"
        by (metis prod.exhaust)
      from assms AtInputs True one register_one_keeps [OF one assms(2)] show ?thesis
        by (cases res) (auto simp: report_turn_def at_typed_def)
    next
      case False
      with assms AtInputs show ?thesis
        by (auto simp: report_turn_def at_typed_def id_known_def list_all_iff)
    qed
  next
    case (AtMounts inputIDs i ids)
    show ?thesis
    proof (cases "i < length (st_mounts (rp_status rp))")
      case True
      obtain res r' where one: "register_one sys ref_id (st_mounts (rp_status rp) ! i) i ids refs = (res, r')"
        by (metis prod.exhaust)
      from assms AtMounts True one register_one_keeps [OF one assms(2)] show ?thesis
        by (cases res) (auto simp: report_turn_def at_typed_def elim!: list.pred_mono_strong)
    next
      case False
      with assms AtMounts show ?thesis
        by (auto simp: report_turn_def at_typed_def)
    qed
  next
    case (Refused e)
    then have "at = Refused e" "refs' = refs"
      using assms(1) by simp_all
    with Refused assms(2,3) show ?thesis
      by (simp add: at_typed_def)
  next
    case (Reported info)
    then have "at = Reported info" "refs' = refs"
      using assms(1) by simp_all
    with Reported assms(2,3) show ?thesis
      by (simp add: at_typed_def)
  qed
  show "refs_ok ref_id refs'" "\<And>k. id_known ref_id refs k \<Longrightarrow> id_known ref_id refs' k"
    "at_typed ref_id refs' (rp\<lparr>rp_at := at\<rparr>)"
    using all by blast+
qed

lemma report_start_typed: "at_typed ref_id refs (new_report v st ident)"
  by (simp add: at_typed_def new_report_def report_start_def Let_def list_all_iff id_known_def)

lemma report_step_inv:
  "report_step sys ref_id clone exec_err w w' \<Longrightarrow> report_inv ref_id exec_err w \<Longrightarrow> report_inv ref_id exec_err w'"
proof (induction rule: report_step.induct)
  case (executed w v inputs outcome ident)
  then show ?case
    using exec_status_shape [of exec_err clone v inputs outcome] report_start_typed
    by (auto simp: report_inv_def new_report_def exec_status_def split: prod.splits)
next
  case (cached w v inputs outputs ident)
  then show ?case
    using cache_status_shape [of exec_err clone v inputs outputs] report_start_typed
    by (auto simp: report_inv_def new_report_def cache_status_def split: prod.splits)
next
  case (turn i w rp at refs)
  let ?good = "\<lambda>rp. st_vertex (rp_status rp) = vx_digest (rp_vertex rp) \<and>
        st_op (rp_status rp) = vx_op (rp_vertex rp) \<and>
        shape exec_err (st_op (rp_status rp)) (st_err (rp_status rp))
          (length (st_inputs (rp_status rp))) (length (st_mounts (rp_status rp)))"
  have all: "list_all (\<lambda>rp. at_typed ref_id (wk_refs w) rp \<and> ?good rp) (wk_reports w)" and refs: "refs_ok ref_id (wk_refs w)"
    using turn.prems by (simp_all add: report_inv_def)
  then have rp: "at_typed ref_id (wk_refs w) rp" "?good rp"
    using turn.hyps(1,2) by (auto simp: list_all_length)
  note kept = report_turn_keeps [OF turn.hyps(3) refs rp(1)]
  have "list_all (\<lambda>rp. at_typed ref_id refs rp \<and> ?good rp) (wk_reports w)"
    using all by (rule list.pred_mono_strong) (auto intro: at_typed_mono kept(2))
  with kept(1,3) rp(2) show ?case
    by (auto simp: report_inv_def intro!: list_all_update)
qed

interpretation reports: inv_system worker_start "report_step sys ref_id clone exec_err" "report_inv ref_id exec_err"
  by unfold_locales (simp add: report_inv_def worker_start_def refs_ok_def, rule report_step_inv)

text \<open>A report that has gone to the handler stays as it is.\<close>

lemma reported_stays:
  assumes "(report_step sys ref_id clone exec_err)\<^sup>*\<^sup>* w t" "i < length (wk_reports w)" "rp_at (wk_reports w ! i) = Reported info"
  shows "i < length (wk_reports t) \<and> wk_reports t ! i = wk_reports w ! i"
  using assms
proof (induction rule: rtranclp_induct)
  case (step t u)
  from step.hyps(2) step.IH [OF step.prems] step.prems show ?case
    by (cases rule: report_step.cases) (auto simp: nth_append nth_list_update)
qed simp

text \<open>
  C21. However the reports of a build interleave, a status that goes to the handler is well-typed:
  it names the operation and the digest of its step; a RUN step that was executed or cached
  has one initial and one final identifier per mount, another step at most one final one, a
  failed step those that its error carries; and every identifier that is not empty
  resolves in the worker to a reference with it, then and after anything that the other
  reports do later.
\<close>

theorem reported_statuses_typed:
  assumes "reach worker_start (report_step sys ref_id clone exec_err) w"
    and "i < length (wk_reports w)" "rp_at (wk_reports w ! i) = Reported info"
    and "(report_step sys ref_id clone exec_err)\<^sup>*\<^sup>* w t"
  shows "status_typed exec_err ref_id (wk_refs t) info \<and>
    rs_op info = vx_op (rp_vertex (wk_reports w ! i)) \<and> rs_vertex info = vx_digest (rp_vertex (wk_reports w ! i))"
proof -
  have "report_inv ref_id exec_err t"
    using assms(1,4) by (blast intro: reports.reach_inv reports.steps_inv)
  moreover have "i < length (wk_reports t)" "wk_reports t ! i = wk_reports w ! i"
    using reported_stays [OF assms(4,2,3)] by simp_all
  ultimately have rp: "at_typed ref_id (wk_refs t) (wk_reports w ! i)"
    "st_vertex (rp_status (wk_reports w ! i)) = vx_digest (rp_vertex (wk_reports w ! i))"
    "st_op (rp_status (wk_reports w ! i)) = vx_op (rp_vertex (wk_reports w ! i))"
    "shape exec_err (st_op (rp_status (wk_reports w ! i))) (st_err (rp_status (wk_reports w ! i)))
       (length (st_inputs (rp_status (wk_reports w ! i)))) (length (st_mounts (rp_status (wk_reports w ! i))))"
    by (auto simp: report_inv_def list_all_length)
  with assms(3) show ?thesis
    by (simp add: at_typed_def status_typed_def Let_def)
qed

definition turn_of :: "('r \<Rightarrow> 'ref option) \<Rightarrow> ('ref \<Rightarrow> string) \<Rightarrow> ('r, 'ref) worker_state \<Rightarrow> nat \<Rightarrow> ('r, 'ref) worker_state" where
  "turn_of sys ref_id w i =
     (let rp = wk_reports w ! i
      in case report_turn sys ref_id (rp_ident rp) (rp_status rp) (rp_at rp, wk_refs w) of
           (at, refs) \<Rightarrow> w\<lparr>wk_refs := refs, wk_reports := (wk_reports w)[i := rp\<lparr>rp_at := at\<rparr>]\<rparr>)"

lemma turns_are_steps:
  "list_all (\<lambda>i. i < length (wk_reports w)) is \<Longrightarrow>
   (report_step sys ref_id clone exec_err)\<^sup>*\<^sup>* w (foldl (turn_of sys ref_id) w is)"
proof (induction "is" arbitrary: w)
  case (Cons i "is")
  have "report_step sys ref_id clone exec_err w (turn_of sys ref_id w i)"
    using Cons.prems by (auto simp: turn_of_def Let_def intro!: report_step.turn split: prod.split)
  moreover have "length (wk_reports (turn_of sys ref_id w i)) = length (wk_reports w)"
    by (simp add: turn_of_def Let_def split: prod.split)
  ultimately show ?case
    using Cons by (auto intro: converse_rtranclp_into_rtranclp)
qed simp

text \<open>A RUN step that is executed while another one is found in the cache.\<close>

definition rootfs_mount :: pb_mount where
  "rootfs_mount = \<lparr>mnt_input = 0, mnt_output = 0, mnt_selector = [], mnt_dest = ''/'', mnt_readonly = False,
     mnt_type = MountType_BIND, mnt_cache_opt = 0, mnt_secret_opt = 0, mnt_ssh_opt = 0\<rparr>"

definition run_op :: exec_op where
  "run_op = \<lparr>ex_mounts = [rootfs_mount], ex_network = NetMode_NONE, ex_security = SecurityMode_SANDBOX,
     ex_cwd = ''/'', ex_env = [], ex_user = []\<rparr>"

definition run_vertex :: vertex where
  "run_vertex = \<lparr>vx_name = ''RUN make'', vx_digest = ''d'', vx_description = [],
     vx_op = \<lparr>op_kind_of = Op_Exec run_op, op_platform = 0, op_constraints = 0\<rparr>\<rparr>"

definition two_reports :: "(nat, nat) worker_state" where
  "two_reports = \<lparr>wk_refs = [], wk_reports =
     [new_report run_vertex (exec_status (\<lambda>r. r) (\<lambda>_. None) run_vertex [1] ([2], None)) ''i'',
      new_report run_vertex (cache_status (\<lambda>r. r) run_vertex [2] [3]) ''j'']\<rparr>"

lemma two_reports_reach: "reach worker_start (report_step Some show_nat (\<lambda>r. r) (\<lambda>_. None)) two_reports"
proof -
  let ?w = "\<lparr>wk_refs = [], wk_reports = []\<rparr> :: (nat, nat) worker_state"
  let ?a = "new_report run_vertex (exec_status (\<lambda>r :: nat. r) (\<lambda>_. None) run_vertex [1] ([2], None)) ''i''"
  have "reach worker_start (report_step Some show_nat (\<lambda>r. r) (\<lambda>_. None)) ?w"
    by (rule reach_init) (simp add: worker_start_def)
  from reach_step [OF this report_step.executed [of _ _ _ _ _ run_vertex "[1]" "([2], None)" "''i''"]]
  have "reach worker_start (report_step Some show_nat (\<lambda>r. r) (\<lambda>_. None)) (?w\<lparr>wk_reports := [?a]\<rparr>)"
    by simp
  from reach_step [OF this report_step.cached [of _ _ _ _ _ run_vertex "[2]" "[3]" "''j''"]] show ?thesis
    by (simp add: two_reports_def)
qed

theorem reported_statuses_typed_witness:
  "\<exists>info. rp_at (wk_reports (foldl (turn_of Some show_nat) two_reports [0, 1, 0, 1, 0, 0]) ! 0) = Reported info \<and>
     status_typed (\<lambda>_. None :: (nat option list \<times> nat option list) option) show_nat
       (wk_refs (foldl (turn_of Some show_nat) (foldl (turn_of Some show_nat) two_reports [0, 1, 0, 1, 0, 0]) [1, 1])) info"
proof -
  let ?w = "foldl (turn_of Some show_nat) two_reports [0, 1, 0, 1, 0, 0]"
  let ?t = "foldl (turn_of Some show_nat) ?w [1, 1]"
  have len: "length (wk_reports two_reports) = 2" "length (wk_reports ?w) = 2"
    by code_simp+
  have "case rp_at (wk_reports ?w ! 0) of Reported info \<Rightarrow> True | _ \<Rightarrow> False"
    by code_simp
  then obtain info where info: "rp_at (wk_reports ?w ! 0) = Reported info"
    by (auto split: report_at.splits)
  have steps: "(report_step Some show_nat (\<lambda>r. r) (\<lambda>_. None))\<^sup>*\<^sup>* two_reports ?w"
    by (rule turns_are_steps) (simp add: len)
  have later: "(report_step Some show_nat (\<lambda>r. r) (\<lambda>_. None))\<^sup>*\<^sup>* ?w ?t"
    by (rule turns_are_steps) (simp only: len, simp)
  have "0 < length (wk_reports ?w)"
    by (simp only: len)
  note typed = reported_statuses_typed [OF reach_steps [OF steps two_reports_reach] this info later]
  show ?thesis
    by (intro exI [of _ info] conjI info typed [THEN conjunct1])
qed

text \<open>
  A typed status never makes \<open>exec\<close> index out of range, when the step succeeded, or failed with an
  error that carries as many inputs and mounts as the step has mounts.
\<close>

lemma typed_status_debuggable:
  assumes "status_typed exec_err ref_id refs info"
    and "\<And>e ex. rs_err info = Some e \<Longrightarrow> op_kind_of (rs_op info) = Op_Exec ex \<Longrightarrow>
       \<exists>ins mounts. exec_err e = Some (ins, mounts) \<and> length ins = length (ex_mounts ex) \<and> length mounts = length (ex_mounts ex)"
  shows "mounts_registered info"
proof (cases "op_kind_of (rs_op info)")
  case (Op_Exec ex)
  have shape: "shape exec_err (rs_op info) (rs_err info) (length (rs_input_ids info)) (length (rs_mount_ids info))"
    using assms(1) by (simp add: status_typed_def)
  show ?thesis
  proof (cases "rs_err info")
    case None
    with shape Op_Exec show ?thesis
      by (auto simp: mounts_registered_def elim!: shape_succeeded)
  next
    case (Some e)
    from assms(2) [OF Some Op_Exec] obtain ins mounts where "exec_err e = Some (ins, mounts)"
      "length ins = length (ex_mounts ex)" "length mounts = length (ex_mounts ex)"
      by blast
    with shape Some Op_Exec show ?thesis
      by (auto simp: mounts_registered_def elim!: shape_failure)
  qed
qed (simp add: mounts_registered_def)

end
