(* ===== verification/DapTerminal.thy ===== *)
theory DapTerminal
  imports DapExec Launcher
begin

text \<open>
  The other end of \<open>exec\<close> in a DAP client: the command that the client's terminal is asked to
  run, back through the command line of \<open>main.go\<close> to \<open>AttachContainerIO\<close>, and the goroutine
  of the server that waits for the container.
\<close>

section \<open>A flag on the command line\<close>

text \<open>
  What is used of \<open>urfave/cli\<close> beyond \<open>cli_ok\<close>: a word \<open>--flag=true\<close> or \<open>--flag=false\<close> after the
  name of a command sets that flag of the command, and only that one. \<open>flag_run\<close> is a
  library that does so.
\<close>

definition bool_word :: "string \<Rightarrow> bool \<Rightarrow> string" where
  "bool_word key b = ''--'' @ key @ (if b then ''=true'' else ''=false'')"

definition cli_flag_ok :: "(command_spec list \<Rightarrow> string list \<Rightarrow> cli_outcome) \<Rightarrow> bool" where
  "cli_flag_ok run \<longleftrightarrow>
     (\<forall>table c n fl d b args. table_ok table \<longrightarrow> c \<in> set table \<longrightarrow> n \<in> set (command_names c) \<longrightarrow>
        (fl, BoolV d) \<in> set (cs_flags c) \<longrightarrow> (\<forall>a \<in> set args. take 1 a \<noteq> ''-'') \<longrightarrow>
        (\<exists>p. run table (n # bool_word (flag_key fl) b # args) = Invoke (cs_name c) p \<and> pa_args p = args \<and>
             pa_bool p (flag_key fl) = b \<and>
             list_all (\<lambda>f. flag_key (fst f) = flag_key fl \<or> reads_default p f) (cs_flags c)))"

definition flag_run :: "command_spec list \<Rightarrow> string list \<Rightarrow> cli_outcome" where
  "flag_run table ws =
     (case ws of
        n # w # args \<Rightarrow>
          (case find (\<lambda>c. n \<in> set (command_names c)) table of
             None \<Rightarrow> simple_run table ws
           | Some c \<Rightarrow>
               (case find (\<lambda>kb. w = bool_word (fst kb) (snd kb))
                       (concat (map (\<lambda>f. [(flag_key (fst f), True), (flag_key (fst f), False)]) (cs_flags c))) of
                  None \<Rightarrow> simple_run table ws
                | Some kb \<Rightarrow>
                    (case simple_run table (n # args) of
                       Invoke name p \<Rightarrow> Invoke name (p\<lparr>pa_bool := (pa_bool p)(fst kb := snd kb)\<rparr>)
                     | r \<Rightarrow> r)))
      | _ \<Rightarrow> simple_run table ws)"

lemma bool_word_inject: "bool_word k b = bool_word k' b' \<longleftrightarrow> k = k' \<and> b = b'"
proof -
  have "k @ ''=true'' \<noteq> k' @ ''=false''" for k k' :: string
  proof
    assume "k @ ''=true'' = k' @ ''=false''"
    then have "rev (k @ ''=true'') = rev (k' @ ''=false'')"
      by (simp only:)
    then show False
      by simp
  qed
  from this [of k k'] this [of k' k] show ?thesis
    by (cases b; cases b') (auto simp: bool_word_def)
qed

lemma find_only: "x \<in> set xs \<Longrightarrow> (\<And>y. P y \<longleftrightarrow> y = x) \<Longrightarrow> find P xs = Some x"
  by (induction xs) auto

lemma flag_run_ok: "cli_flag_ok flag_run"
  unfolding cli_flag_ok_def
proof (intro allI impI)
  fix table c n fl d b args
  assume table: "table_ok table" and c: "c \<in> set table" "n \<in> set (command_names c)"
    and fl: "(fl, BoolV d) \<in> set (cs_flags c)" and args: "\<forall>a \<in> set args. take 1 a \<noteq> ''-''"
  obtain p where p: "simple_run table (n # args) = Invoke (cs_name c) p" "pa_args p = args"
    "list_all (reads_default p) (cs_flags c)"
    using cli_ok_run [OF simple_run_ok table, of "cs_name c" n "cs_flags c" args] c args by auto
  let ?all = "concat (map (\<lambda>f. [(flag_key (fst f), True), (flag_key (fst f), False)]) (cs_flags c))"
  have "(flag_key fl, b) \<in> set ?all"
    using fl by (cases b) force+
  then have word: "find (\<lambda>kb. bool_word (flag_key fl) b = bool_word (fst kb) (snd kb)) ?all = Some (flag_key fl, b)"
    by (rule find_only) (auto simp: bool_word_inject)
  have cmd: "find (\<lambda>c. n \<in> set (command_names c)) table = Some c"
    using find_by_name table c by (simp add: table_ok_def)
  let ?p = "p\<lparr>pa_bool := (pa_bool p)(flag_key fl := b)\<rparr>"
  have "flag_run table (n # bool_word (flag_key fl) b # args) = Invoke (cs_name c) ?p"
    using p(1) cmd word by (simp add: flag_run_def)
  moreover have "list_all (\<lambda>f. flag_key (fst f) = flag_key fl \<or> reads_default ?p f) (cs_flags c)"
    using p(3) by (rule list.pred_mono_strong) (auto simp: reads_default_def split: flag_value.splits)
  ultimately show "\<exists>p. flag_run table (n # bool_word (flag_key fl) b # args) = Invoke (cs_name c) p \<and> pa_args p = args \<and>
       pa_bool p (flag_key fl) = b \<and>
       list_all (\<lambda>f. flag_key (fst f) = flag_key fl \<or> reads_default p f) (cs_flags c)"
    using p(2) by (intro exI [of _ ?p]) simp
qed

section \<open>The terminal's command\<close>

text \<open>\<open>timed_out\<close> as for \<open>AttachContainerIO\<close>.\<close>

definition dapAttachContainerAction :: "dcall world \<Rightarrow> parsed \<Rightarrow> bool \<Rightarrow> (dcall, unit) prog" where
  "dapAttachContainerAction os p timed_out =
     (let root = first_arg (pa_args p)
      in if root = [] then fail (Errorf ''root needs to be specified'' [])
         else AttachContainerIO os root (pa_bool p ''set-tty-raw'') timed_out)"

text \<open>
  A process of buildg started with the words \<open>argv\<close>: the words after \<open>dap\<close> select among its
  subcommands. \<open>None\<close> for any other command.
\<close>

definition attach_command ::
  "(command_spec list \<Rightarrow> string list \<Rightarrow> cli_outcome) \<Rightarrow> dcall world \<Rightarrow> bool \<Rightarrow> string list \<Rightarrow> (dcall, unit) prog option" where
  "attach_command run os timed_out argv =
     (case argv of
        self # d # ws \<Rightarrow>
          if d \<noteq> ''dap'' then None
          else (case run dap_commands ws of
                  Invoke name p \<Rightarrow>
                    if name = AttachContainerCommand then Some (dapAttachContainerAction os p timed_out) else None
                | _ \<Rightarrow> None)
      | _ \<Rightarrow> None)"

text \<open>
  C27. The command that \<open>exec\<close> makes the client's terminal run comes back through the command line
  of buildg to exactly this container: the words are read as the hidden subcommand with the
  state directory of the running container and with the terminal in raw mode just when the
  container has a terminal, and both sides open the same pipes in the same order.
\<close>

theorem terminal_attaches_to_container:
  assumes cli: "cli_flag_ok run" and started: "dap_execAction os env img info f [] = (Ok (tmp, self, cs), tr)"
    and tmp: "tmp \<noteq> []" "take 1 tmp \<noteq> ''-''" and opens: "\<forall>tr p e. os' tr (OpenFifo p) \<noteq> Inl e"
  shows "\<exists>attach. attach_command run os' False (fst (run_in_terminal (tmp, self, cs) f cfg)) = Some attach \<and>
    attach = AttachContainerIO os' tmp (xf_tty f) False \<and> (MkTempState, Inr tmp) \<in> set tr \<and>
    filter (\<lambda>c. case c of OpenFifo _ \<Rightarrow> True | _ \<Rightarrow> False) (map fst (snd (attach []))) =
    filter (\<lambda>c. case c of OpenFifo _ \<Rightarrow> True | _ \<Rightarrow> False) (map fst tr)"
proof -
  let ?c = "\<lparr>cs_name = ''_dap_attach_container'', cs_aliases = [], cs_flags = [(''set-tty-raw'', BoolV False)]\<rparr>"
  have key: "flag_key ''set-tty-raw'' = ''set-tty-raw''"
    by code_simp
  have "?c \<in> set dap_commands"
    by (simp add: dap_commands_def)
  then obtain p where p: "run dap_commands (''_dap_attach_container'' # bool_word ''set-tty-raw'' (xf_tty f) # [tmp]) =
      Invoke ''_dap_attach_container'' p" "pa_args p = [tmp]" "pa_bool p ''set-tty-raw'' = xf_tty f"
    using cli [unfolded cli_flag_ok_def, rule_format, of dap_commands ?c "''_dap_attach_container''" "''set-tty-raw''"
        False "[tmp]" "xf_tty f"] tmp dap_commands_ok key
    by (auto simp: command_names_def)
  have "attach_command run os' False (fst (run_in_terminal (tmp, self, cs) f cfg)) =
      Some (AttachContainerIO os' tmp (xf_tty f) False)"
    using p tmp by (auto simp: attach_command_def run_in_terminal_def attach_args_def AttachContainerCommand_def
        dapAttachContainerAction_def first_arg_def bool_word_def)
  moreover have "(MkTempState, Inr tmp) \<in> set tr \<and>
    filter (\<lambda>c. case c of OpenFifo _ \<Rightarrow> True | _ \<Rightarrow> False) (map fst (snd (AttachContainerIO os' tmp (xf_tty f) False []))) =
    filter (\<lambda>c. case c of OpenFifo _ \<Rightarrow> True | _ \<Rightarrow> False) (map fst tr)"
    using terminal_opens_same_pipes [OF started _ opens tmp(1), of cfg "xf_tty f"]
    by (cases "AttachContainerIO os' tmp (xf_tty f) False []") (simp add: run_in_terminal_def attach_args_def)
  ultimately show ?thesis
    by blast
qed


theorem terminal_attaches_to_container_witness:
  "\<exists>attach. attach_command flag_run ready_os False (attach_args ''buildg'' ''/t'' True) = Some attach \<and>
     filter (\<lambda>c. case c of OpenFifo _ \<Rightarrow> True | _ \<Rightarrow> False) (map fst (snd (attach []))) = map OpenFifo (all_fifos ''/t'')"
proof -
  let ?env = "\<lparr>ee_new_container = None, ee_start = None, ee_console = True, ee_set_raw = None\<rparr>"
  let ?run = "dap_execAction ready_os ?env None one_mount_status sample_exec_flags []"
  have "case fst ?run of Ok (tmp, self, cs) \<Rightarrow> tmp = ''/t'' \<and> self = ''buildg'' | _ \<Rightarrow> False"
    by code_simp
  then obtain cs where run: "?run = (Ok (''/t'', ''buildg'', cs), snd ?run)"
    by (cases "fst ?run"; clarsimp split: prod.splits) (metis prod.collapse)
  have ready: "\<forall>tr p e. ready_os tr (OpenFifo p) \<noteq> Inl e"
    by (simp add: ready_os_def)
  have pipes: "filter (\<lambda>c. case c of OpenFifo _ \<Rightarrow> True | _ \<Rightarrow> False) (map fst (snd ?run)) = map OpenFifo (all_fifos ''/t'')"
    by code_simp
  have tty: "xf_tty sample_exec_flags"
    by code_simp
  from terminal_attaches_to_container [OF flag_run_ok run _ _ ready, of sample_launch] pipes show ?thesis
    by (simp add: run_in_terminal_def tty)
qed

section \<open>Waiting for the container\<close>

text \<open>
  What the goroutine of the server says to the client and does. \<open>first\<close> is how its first select
  ends: with what \<open>proc.Wait\<close> returned, or (\<open>None\<close>) because the server shuts down;
  \<open>second\<close> is what \<open>proc.Wait\<close> returns within three seconds after the clean-up, if it does.
  After an error of the first select the channel \<open>doneCh\<close> is closed, so the second one is silent.
\<close>

datatype task_act = Say string "go_err option" | Cleanups "dcall list"

definition exec_task :: "go_err option option \<Rightarrow> go_err option option \<Rightarrow> string \<Rightarrow> cleanup list \<Rightarrow> task_act list" where
  "exec_task first second tmp cs =
     (case first of
        Some None \<Rightarrow> [Say ''container finished'' None]
      | Some (Some e) \<Rightarrow> [Say ''container finished with error: %v'' (Some e)]
      | None \<Rightarrow> [Say ''finishing container due to server shutdown: %v'' None]) @
     [Cleanups (task_cleanup tmp cs)] @
     (case first of
        Some _ \<Rightarrow> []
      | None \<Rightarrow> (case second of
                   Some None \<Rightarrow> []
                 | Some (Some e) \<Rightarrow> [Say ''container exit with error: %v'' (Some e)]
                 | None \<Rightarrow> [Say ''container exit timeout'' None]))"

text \<open>However the container ends, the clean-ups run once, and the end is announced before them.\<close>

lemma exec_task_cleans_once:
  "\<exists>m e after. exec_task first second tmp cs = Say m e # Cleanups (task_cleanup tmp cs) # after \<and>
     (\<forall>a \<in> set after. \<exists>m e. a = Say m e)"
  by (auto simp: exec_task_def split: option.splits)

end
