(* ===== verification/DapLife.thy ===== *)
theory DapLife
  imports DapServer
begin

text \<open>
  The life of a debug session in the adapter, over the goroutines of \<open>onLaunchRequest\<close>, of
  \<open>debugger.launch\<close> with the build, of the breakpoint handler, of the loop that forwards the
  stops to the client, and of \<open>onDisconnectRequest\<close>: what is sent in which order, and what has
  been done when the process leaves. Launch requests come one after the other.
\<close>

section \<open>The system\<close>

text \<open>
  Where each goroutine is. A launch has a number; \<open>li_cancel\<close> is the launch whose \<open>debugCancel\<close>
  the debugger holds, \<open>li_finished\<close> those whose \<open>doneCh\<close> is closed. \<open>Finishing\<close> has what is left
  of the hook \<open>onFinishHook\<close>; the waiting disconnect has the launch that it waits for.
\<close>

datatype launch_at = NoLaunch | Entered | Refusing go_err | Starting | Launched
datatype build_at = NoBuild | Running nat | Finishing nat "act list" | Returned nat
datatype breaker_at = AtWork | Offering "int list" | Noting | AtBreak
datatype forward_at = NoLoop | Listening | Holding "int list" | LoopEnded
datatype leave_at = Staying | Closing | Looking | Awaiting nat | Answering "nat option" | Leaving "nat option"
datatype process_at = Alive | Left | Panicked

record dap_life =
  li_acts :: "act list"
  li_launch :: launch_at
  li_configured :: bool
  li_number :: nat
  li_cancel :: "nat option"
  li_finished :: "nat list"
  li_build :: build_at
  li_breaker :: breaker_at
  li_forward :: forward_at
  li_closed :: bool
  li_leave :: leave_at
  li_process :: process_at

definition life0 :: dap_life where
  "life0 = \<lparr>li_acts = [], li_launch = NoLaunch, li_configured = False, li_number = 0, li_cancel = None,
     li_finished = [], li_build = NoBuild, li_breaker = AtWork, li_forward = NoLoop, li_closed = False,
     li_leave = Staying, li_process = Alive\<rparr>"

definition life_start :: "dap_life \<Rightarrow> bool" where "life_start s \<longleftrightarrow> s = life0"

definition launch_error :: "request \<Rightarrow> go_err \<Rightarrow> act" where
  "launch_error rq e = sendErrorResponse rq failedError (Errvf ''failed to launch: %v'' e) True"

text \<open>
  The rules follow the code: \<open>enter\<close> to \<open>respond_launch\<close> are \<open>launch\<close> and \<open>onLaunchRequest\<close>;
  \<open>stop\<close> to \<open>resume_build\<close> and \<open>crash\<close> are \<open>breakHandler\<close> with the forwarding loop;
  \<open>build_ends\<close> to \<open>launch_returns\<close> the rest of \<open>launch\<close>; \<open>disconnect_asked\<close> to \<open>leave\<close> are
  \<open>onDisconnectRequest\<close> with \<open>cancel\<close>. A send on the closed \<open>stoppedCh\<close> is a panic, also when
  the goroutine was already blocked in it. The build may end at any time, in particular
  when its context is cancelled.
\<close>

inductive life_step :: "request \<Rightarrow> request \<Rightarrow> dap_life \<Rightarrow> dap_life \<Rightarrow> bool" for lrq drq :: request where
  enter: "li_process s = Alive \<Longrightarrow> li_launch s = NoLaunch \<Longrightarrow> \<not> li_configured s \<Longrightarrow>
    life_step lrq drq s (s\<lparr>li_launch := Entered, li_cancel := Some (li_number s), li_number := Suc (li_number s)\<rparr>)"
| second_launch: "li_process s = Alive \<Longrightarrow> li_configured s \<Longrightarrow> rq \<noteq> lrq \<Longrightarrow>
    life_step lrq drq s (s\<lparr>li_acts := li_acts s @ [launch_error rq (Errorf ''multi session unsupported'' [])]\<rparr>)"
| parse_fails: "li_process s = Alive \<Longrightarrow> li_launch s = Entered \<Longrightarrow> li_cancel s = Some k \<Longrightarrow>
    life_step lrq drq s (s\<lparr>li_launch := Refusing e, li_finished := k # li_finished s\<rparr>)"
| refuse: "li_process s = Alive \<Longrightarrow> li_launch s = Refusing e \<Longrightarrow>
    life_step lrq drq s (s\<lparr>li_launch := NoLaunch, li_acts := li_acts s @ [launch_error lrq e]\<rparr>)"
| start: "li_process s = Alive \<Longrightarrow> li_launch s = Entered \<Longrightarrow> li_cancel s = Some k \<Longrightarrow>
    life_step lrq drq s (s\<lparr>li_launch := Starting, li_configured := True, li_build := Running k,
                           li_acts := li_acts s @ [Send (Event (Thread ''started''))]\<rparr>)"
| respond_launch: "li_process s = Alive \<Longrightarrow> li_launch s = Starting \<Longrightarrow>
    life_step lrq drq s (s\<lparr>li_launch := Launched, li_forward := Listening, li_acts := li_acts s @ [respond lrq NoBody]\<rparr>)"
| stop: "li_process s = Alive \<Longrightarrow> li_build s = Running k \<Longrightarrow> li_breaker s = AtWork \<Longrightarrow>
    life_step lrq drq s (s\<lparr>li_breaker := Offering ids\<rparr>)"
| hand_over: "li_process s = Alive \<Longrightarrow> li_breaker s = Offering ids \<Longrightarrow> li_forward s = Listening \<Longrightarrow> \<not> li_closed s \<Longrightarrow>
    life_step lrq drq s (s\<lparr>li_breaker := Noting, li_forward := Holding ids\<rparr>)"
| forward: "li_process s = Alive \<Longrightarrow> li_forward s = Holding ids \<Longrightarrow>
    life_step lrq drq s (s\<lparr>li_forward := Listening, li_acts := li_acts s @ [Send (stopped_event ids)]\<rparr>)"
| forward_ends: "li_process s = Alive \<Longrightarrow> li_forward s = Listening \<Longrightarrow> li_closed s \<Longrightarrow>
    life_step lrq drq s (s\<lparr>li_forward := LoopEnded\<rparr>)"
| note_break: "li_process s = Alive \<Longrightarrow> li_breaker s = Noting \<Longrightarrow> life_step lrq drq s (s\<lparr>li_breaker := AtBreak\<rparr>)"
| resume_build: "li_process s = Alive \<Longrightarrow> li_breaker s = AtBreak \<Longrightarrow> life_step lrq drq s (s\<lparr>li_breaker := AtWork\<rparr>)"
| crash: "li_process s = Alive \<Longrightarrow> li_breaker s = Offering ids \<Longrightarrow> li_closed s \<Longrightarrow>
    life_step lrq drq s (s\<lparr>li_process := Panicked\<rparr>)"
| build_ends: "li_process s = Alive \<Longrightarrow> li_build s = Running k \<Longrightarrow>
    life_step lrq drq s (s\<lparr>li_build := Finishing k onFinishHook\<rparr>)"
| hook: "li_process s = Alive \<Longrightarrow> li_build s = Finishing k (a # rest) \<Longrightarrow>
    life_step lrq drq s (s\<lparr>li_build := Finishing k rest, li_acts := li_acts s @ [a]\<rparr>)"
| launch_returns: "li_process s = Alive \<Longrightarrow> li_build s = Finishing k [] \<Longrightarrow>
    life_step lrq drq s (s\<lparr>li_build := Returned k, li_finished := k # li_finished s\<rparr>)"
| disconnect_asked: "li_process s = Alive \<Longrightarrow> li_leave s = Staying \<Longrightarrow>
    life_step lrq drq s (s\<lparr>li_leave := Closing, li_acts := li_acts s @ [CancelTasks]\<rparr>)"
| close_stops: "li_process s = Alive \<Longrightarrow> li_leave s = Closing \<Longrightarrow>
    life_step lrq drq s (s\<lparr>li_leave := Looking, li_closed := True\<rparr>)"
| look: "li_process s = Alive \<Longrightarrow> li_leave s = Looking \<Longrightarrow>
    life_step lrq drq s (case li_cancel s of
        None \<Rightarrow> s\<lparr>li_leave := Answering None\<rparr>
      | Some k \<Rightarrow> s\<lparr>li_leave := Awaiting k, li_acts := li_acts s @ [CancelBuild]\<rparr>)"
| waited: "li_process s = Alive \<Longrightarrow> li_leave s = Awaiting k \<Longrightarrow> k \<in> set (li_finished s) \<Longrightarrow>
    life_step lrq drq s (s\<lparr>li_leave := Answering (Some k)\<rparr>)"
| answer_leave: "li_process s = Alive \<Longrightarrow> li_leave s = Answering c \<Longrightarrow>
    life_step lrq drq s (s\<lparr>li_leave := Leaving c, li_acts := li_acts s @ [respond drq NoBody]\<rparr>)"
| leave: "li_process s = Alive \<Longrightarrow> li_leave s = Leaving c \<Longrightarrow>
    life_step lrq drq s (s\<lparr>li_process := Left, li_acts := li_acts s @ [Exit]\<rparr>)"

section \<open>The invariant\<close>

definition hook_acts :: "act list \<Rightarrow> act list" where
  "hook_acts acts = filter (\<lambda>a. a \<in> set onFinishHook) acts"

text \<open>Every stop that is sent comes after the act \<open>a\<close>.\<close>

definition is_stop :: "act \<Rightarrow> bool" where
  "is_stop a = (case a of Send (Event (Stopped r ids)) \<Rightarrow> True | _ \<Rightarrow> False)"

primrec stops_after :: "act \<Rightarrow> act list \<Rightarrow> bool" where
  "stops_after a [] = True"
| "stops_after a (b # acts) = (b = a \<or> \<not> is_stop b \<and> stops_after a acts)"

text \<open>What is kept, in four parts: the launch and the stops, the launches, the build, the end.\<close>

definition launch_inv :: "request \<Rightarrow> dap_life \<Rightarrow> bool" where
  "launch_inv lrq s \<longleftrightarrow>
     (li_configured s \<longleftrightarrow> li_launch s = Starting \<or> li_launch s = Launched) \<and>
     (li_launch s = Launched \<longrightarrow> respond lrq NoBody \<in> set (li_acts s)) \<and>
     (li_forward s \<noteq> NoLoop \<longrightarrow> li_launch s = Launched) \<and>
     stops_after (respond lrq NoBody) (li_acts s)"

definition number_inv :: "dap_life \<Rightarrow> bool" where
  "number_inv s \<longleftrightarrow> (\<forall>k \<in> set (li_finished s). k < li_number s) \<and>
     (\<forall>k. li_cancel s = Some k \<longrightarrow> Suc k = li_number s) \<and>
     (li_launch s = Entered \<longrightarrow> li_number s - 1 \<notin> set (li_finished s))"

definition build_inv :: "dap_life \<Rightarrow> bool" where
  "build_inv s \<longleftrightarrow> (li_build s = NoBuild \<longleftrightarrow> \<not> li_configured s) \<and>
     (case li_build s of
        NoBuild \<Rightarrow> hook_acts (li_acts s) = []
      | Running k \<Rightarrow> hook_acts (li_acts s) = [] \<and> li_cancel s = Some k \<and> k \<notin> set (li_finished s)
      | Finishing k rest \<Rightarrow> hook_acts (li_acts s) @ rest = onFinishHook \<and> li_cancel s = Some k \<and> k \<notin> set (li_finished s)
      | Returned k \<Rightarrow> hook_acts (li_acts s) = onFinishHook \<and> li_cancel s = Some k)"

definition leave_inv :: "dap_life \<Rightarrow> bool" where
  "leave_inv s \<longleftrightarrow> (\<forall>k. li_leave s = Answering (Some k) \<or> li_leave s = Leaving (Some k) \<longrightarrow> k \<in> set (li_finished s))"

definition life_inv :: "request \<Rightarrow> dap_life \<Rightarrow> bool" where
  "life_inv lrq s \<longleftrightarrow> launch_inv lrq s \<and> number_inv s \<and> build_inv s \<and> leave_inv s"

lemma hook_acts_append [simp]: "hook_acts (as @ bs) = hook_acts as @ hook_acts bs"
  by (simp add: hook_acts_def)

lemma hook_acts_simps [simp]:
  "hook_acts [] = []" "hook_acts [respond rq b] = []" "hook_acts [launch_error rq e] = []"
  "hook_acts [Send (Event (Thread ''started''))] = []" "hook_acts [Send (stopped_event ids)] = []"
  "hook_acts [CancelTasks] = []" "hook_acts [CancelBuild] = []" "hook_acts [Exit] = []"
  "a \<in> set onFinishHook \<Longrightarrow> hook_acts [a] = [a]"
  by (simp_all add: hook_acts_def onFinishHook_def respond_def launch_error_def sendErrorResponse_def stopped_event_def
      Let_def split: prod.split)

lemma is_stop_simps [simp]:
  "\<not> is_stop (respond rq b)" "\<not> is_stop (launch_error rq e)" "\<not> is_stop (Send (Event (Thread t)))"
  "is_stop (Send (stopped_event ids))" "\<not> is_stop CancelTasks" "\<not> is_stop CancelBuild" "\<not> is_stop Exit"
  "a \<in> set onFinishHook \<Longrightarrow> \<not> is_stop a"
  by (auto simp: is_stop_def onFinishHook_def respond_def launch_error_def sendErrorResponse_def stopped_event_def
      Let_def split: prod.split)

lemma stops_after_append:
  "stops_after a (as @ [b]) \<longleftrightarrow> stops_after a as \<and> (a \<in> set as \<or> b = a \<or> \<not> is_stop b)"
  by (induction as) auto

lemma launch_inv_step: "life_step lrq drq s t \<Longrightarrow> build_inv s \<Longrightarrow> launch_inv lrq s \<Longrightarrow> launch_inv lrq t"
proof (induction rule: life_step.induct)
  case (hook s k a rest)
  then have "hook_acts (li_acts s) @ a # rest = onFinishHook"
    by (simp add: build_inv_def)
  then have "a \<in> set onFinishHook"
    by (metis in_set_conv_decomp)
  with hook show ?case
    by (simp add: launch_inv_def stops_after_append)
qed (auto simp: launch_inv_def stops_after_append split: option.split)

lemma number_inv_step:
  "life_step lrq drq s t \<Longrightarrow> build_inv s \<Longrightarrow> launch_inv lrq s \<Longrightarrow> number_inv s \<Longrightarrow> number_inv t"
  by (induction rule: life_step.induct)
    (auto simp: number_inv_def build_inv_def launch_inv_def split: option.split)

lemma build_inv_step:
  "life_step lrq drq s t \<Longrightarrow> launch_inv lrq s \<Longrightarrow> number_inv s \<Longrightarrow> build_inv s \<Longrightarrow> build_inv t"
proof (induction rule: life_step.induct)
  case (hook s k a rest)
  then have "hook_acts (li_acts s) @ a # rest = onFinishHook"
    by (simp add: build_inv_def)
  then have "a \<in> set onFinishHook"
    by (metis in_set_conv_decomp)
  with hook show ?case
    by (simp add: build_inv_def)
next
  case (look s)
  then show ?case
    by (cases "li_cancel s"; cases "li_build s") (simp_all add: build_inv_def)
next
  case (start s k)
  then have "k = li_number s - 1" "li_build s = NoBuild"
    by (auto simp: number_inv_def launch_inv_def build_inv_def)
  with start show ?case
    by (auto simp: build_inv_def number_inv_def)
next
  case (parse_fails s k e)
  then have "li_build s = NoBuild"
    by (auto simp: launch_inv_def build_inv_def)
  with parse_fails show ?case
    by (simp add: build_inv_def)
next
  case (enter s)
  then have "li_build s = NoBuild"
    by (simp add: build_inv_def)
  with enter show ?case
    by (simp add: build_inv_def)
qed (simp_all add: build_inv_def split: build_at.splits)

lemma leave_inv_step: "life_step lrq drq s t \<Longrightarrow> leave_inv s \<Longrightarrow> leave_inv t"
  by (induction rule: life_step.induct) (auto simp: leave_inv_def split: option.split)

interpretation life: inv_system life_start "life_step lrq drq" "life_inv lrq"
proof
  show "life_start s \<Longrightarrow> life_inv lrq s" for s
    by (simp add: life_start_def life0_def life_inv_def launch_inv_def number_inv_def build_inv_def leave_inv_def)
  show "life_inv lrq s \<Longrightarrow> life_step lrq drq s t \<Longrightarrow> life_inv lrq t" for s t
    unfolding life_inv_def
    by (blast intro: launch_inv_step number_inv_step build_inv_step leave_inv_step)
qed


section \<open>Properties\<close>

text \<open>A stop is never sent to the client before the successful answer to its launch request.\<close>

lemma stops_afterD: "stops_after a acts \<Longrightarrow> acts = pre @ b # post \<Longrightarrow> is_stop b \<Longrightarrow> \<not> is_stop a \<Longrightarrow> a \<in> set pre"
  by (induction pre arbitrary: acts) auto

theorem stops_follow_launch_answer:
  assumes "reach life_start (life_step lrq drq) s" "li_acts s = pre @ b # post" "is_stop b"
  shows "respond lrq NoBody \<in> set pre"
proof -
  have "stops_after (respond lrq NoBody) (li_acts s)"
    using life.reach_inv [OF assms(1)] by (simp add: life_inv_def launch_inv_def)
  with assms(2,3) show ?thesis
    using stops_afterD by fastforce
qed

text \<open>Once the disconnect has found a build, it waits for that one.\<close>

definition answered_after_hook :: "request \<Rightarrow> act list \<Rightarrow> bool" where
  "answered_after_hook drq acts \<longleftrightarrow> (\<exists>pre post. acts = pre @ respond drq NoBody # post \<and> hook_acts pre = onFinishHook)"

definition leaving_with :: "request \<Rightarrow> nat \<Rightarrow> dap_life \<Rightarrow> bool" where
  "leaving_with drq k s \<longleftrightarrow> li_configured s \<and> li_cancel s = Some k \<and>
     li_leave s \<in> {Looking, Awaiting k, Answering (Some k), Leaving (Some k)} \<and>
     (li_process s = Left \<longrightarrow> li_leave s = Leaving (Some k)) \<and>
     (li_leave s = Leaving (Some k) \<longrightarrow> answered_after_hook drq (li_acts s))"

lemma answered_after_hook_append [intro]: "answered_after_hook drq acts \<Longrightarrow> answered_after_hook drq (acts @ bs)"
  unfolding answered_after_hook_def by fastforce

lemma answered_after_hook_now: "hook_acts acts = onFinishHook \<Longrightarrow> answered_after_hook drq (acts @ [respond drq NoBody])"
  unfolding answered_after_hook_def by blast

lemma finished_build:
  "life_inv lrq s \<Longrightarrow> li_configured s \<Longrightarrow> li_cancel s = Some k \<Longrightarrow> k \<in> set (li_finished s) \<Longrightarrow>
   hook_acts (li_acts s) = onFinishHook"
  by (cases "li_build s") (auto simp: life_inv_def build_inv_def)

lemma leaving_with_step:
  assumes "life_step lrq drq s t" "life_inv lrq s" "leaving_with drq k s"
  shows "leaving_with drq k t"
proof -
  have begun: "li_launch s \<noteq> Entered" "li_configured s"
    using assms(2,3) by (auto simp: life_inv_def launch_inv_def leaving_with_def)
  from assms(1,3) begun show ?thesis
  proof cases
    case (answer_leave c)
    with assms(2,3) have "c = Some k" "k \<in> set (li_finished s)"
      by (auto simp: leaving_with_def life_inv_def leave_inv_def)
    with answer_leave finished_build [OF assms(2)] assms(3) show ?thesis
      by (auto simp: leaving_with_def answered_after_hook_now)
  qed (auto simp: leaving_with_def)
qed

text \<open>
  C14. A disconnect waits for the build: when it finds one that has been started, the process
  leaves (and before it the disconnect is answered) only after the build has returned and its
  hook has run as a whole, in order and once: the client is told that the thread has
  ended, the root is given back, the client is told of the termination and the exit.
\<close>

theorem exit_waits_for_build:
  assumes "reach life_start (life_step lrq drq) s" "li_leave s = Looking" "li_build s \<noteq> NoBuild" "li_process s = Alive"
    and "(life_step lrq drq)\<^sup>*\<^sup>* s t" "li_process t = Left"
  shows "\<exists>pre post. li_acts t = pre @ respond drq NoBody # post \<and>
    filter (\<lambda>a. a \<in> set onFinishHook) pre = onFinishHook \<and> filter (\<lambda>a. a \<in> set onFinishHook) post = []"
proof -
  have inv: "life_inv lrq s"
    using assms(1) by (rule life.reach_inv)
  obtain k where k: "li_cancel s = Some k"
    using inv assms(3) by (cases "li_build s") (auto simp: life_inv_def build_inv_def)
  then have "leaving_with drq k s"
    using inv assms(2-4) by (auto simp: leaving_with_def life_inv_def build_inv_def)
  with assms(5) have "leaving_with drq k t \<and> life_inv lrq t"
  proof (induction rule: rtranclp_induct)
    case (step t u)
    then show ?case
      using leaving_with_step life.inv_step by blast
  qed (use inv in simp)
  then obtain pre post where t: "li_acts t = pre @ respond drq NoBody # post" "hook_acts pre = onFinishHook"
    and leave: "li_leave t = Leaving (Some k)" "li_configured t" "li_cancel t = Some k" "life_inv lrq t"
    using assms(6) by (auto simp: leaving_with_def answered_after_hook_def)
  have "hook_acts (li_acts t) = onFinishHook"
    using leave by (intro finished_build) (auto simp: life_inv_def leave_inv_def)
  then have "hook_acts post = []"
    using t hook_acts_append [of "[respond drq NoBody]" post] by simp
  with t show ?thesis
    by (auto simp: hook_acts_def)
qed

text \<open>A build that runs when the client disconnects, and what follows.\<close>

definition life_looking :: dap_life where
  "life_looking = life0\<lparr>li_acts := [Send (Event (Thread ''started'')), respond (sample_request Disconnect) NoBody, CancelTasks],
     li_launch := Launched, li_configured := True, li_number := 1, li_cancel := Some 0, li_build := Running 0,
     li_forward := Listening, li_closed := True, li_leave := Looking\<rparr>"

definition life_left :: dap_life where
  "life_left = life_looking\<lparr>li_acts := li_acts life_looking @ [CancelBuild] @ onFinishHook @
       [respond (sample_request Disconnect) NoBody, Exit],
     li_finished := [0], li_build := Returned 0, li_leave := Leaving (Some 0), li_process := Left\<rparr>"

lemma life_looking_reach:
  "reach life_start (life_step (sample_request Disconnect) (sample_request Disconnect)) life_looking"
proof -
  let ?r = "sample_request Disconnect"
  define s1 where "s1 = life0\<lparr>li_launch := Entered, li_cancel := Some 0, li_number := 1\<rparr>"
  define s2 where "s2 = s1\<lparr>li_launch := Starting, li_configured := True, li_build := Running 0,
      li_acts := [Send (Event (Thread ''started''))]\<rparr>"
  define s3 where "s3 = s2\<lparr>li_launch := Launched, li_forward := Listening, li_acts := li_acts s2 @ [respond ?r NoBody]\<rparr>"
  define s4 where "s4 = s3\<lparr>li_leave := Closing, li_acts := li_acts s3 @ [CancelTasks]\<rparr>"
  note states = s4_def s3_def s2_def s1_def life0_def
  have "reach life_start (life_step ?r ?r) life0"
    by (rule reach_init) (simp add: life_start_def)
  moreover have "life_step ?r ?r life0 s1"
    using life_step.enter [of life0 ?r ?r] by (simp add: states)
  moreover have "life_step ?r ?r s1 s2"
    using life_step.start [of s1 0 ?r ?r] by (simp add: states)
  moreover have "life_step ?r ?r s2 s3"
    unfolding s3_def by (rule life_step.respond_launch) (simp_all add: states)
  moreover have "life_step ?r ?r s3 s4"
    unfolding s4_def by (rule life_step.disconnect_asked) (simp_all add: states)
  moreover have "life_step ?r ?r s4 life_looking"
    using life_step.close_stops [of s4 ?r ?r] by (simp add: states life_looking_def)
  ultimately show ?thesis
    by (meson reach_step)
qed

lemma life_left_steps:
  "(life_step (sample_request Disconnect) (sample_request Disconnect))\<^sup>*\<^sup>* life_looking life_left"
proof -
  let ?r = "sample_request Disconnect"
  define s1 where "s1 = life_looking\<lparr>li_leave := Awaiting 0, li_acts := li_acts life_looking @ [CancelBuild]\<rparr>"
  define f where "f = (\<lambda>as rest. s1\<lparr>li_build := Finishing 0 rest, li_acts := li_acts s1 @ as\<rparr>)"
  have hook: "life_step ?r ?r (f as (a # rest)) (f (as @ [a]) rest)" for as a rest
    using life_step.hook [of "f as (a # rest)" 0 a rest ?r ?r] by (simp add: f_def s1_def life_looking_def life0_def)
  have run: "(life_step ?r ?r)\<^sup>*\<^sup>* (f as rest) (f (as @ rest) [])" for as rest
  proof (induction rest arbitrary: as)
    case (Cons a rest)
    then show ?case
      using hook [of as a rest] Cons.IH [of "as @ [a]"] by (auto intro: converse_rtranclp_into_rtranclp)
  qed simp
  define s2 where "s2 = (f onFinishHook [])\<lparr>li_build := Returned 0, li_finished := [0]\<rparr>"
  define s3 where "s3 = s2\<lparr>li_leave := Answering (Some 0)\<rparr>"
  define s4 where "s4 = s3\<lparr>li_leave := Leaving (Some 0), li_acts := li_acts s3 @ [respond ?r NoBody]\<rparr>"
  note states = s4_def s3_def s2_def f_def s1_def life_looking_def life0_def
  have "life_step ?r ?r life_looking s1"
    using life_step.look [of life_looking ?r ?r] by (simp add: states)
  moreover have "life_step ?r ?r s1 (f [] onFinishHook)"
    using life_step.build_ends [of s1 0 ?r ?r] by (simp add: states)
  moreover have "(life_step ?r ?r)\<^sup>*\<^sup>* (f [] onFinishHook) (f onFinishHook [])"
    using run [of "[]" onFinishHook] by simp
  moreover have "life_step ?r ?r (f onFinishHook []) s2"
    using life_step.launch_returns [of "f onFinishHook []" 0 ?r ?r] by (simp add: states)
  moreover have "life_step ?r ?r s2 s3"
    unfolding s3_def by (rule life_step.waited) (simp_all add: states)
  moreover have "life_step ?r ?r s3 s4"
    unfolding s4_def by (rule life_step.answer_leave) (simp_all add: states)
  moreover have "life_step ?r ?r s4 life_left"
    using life_step.leave [of s4 "Some 0" ?r ?r] by (simp add: states life_left_def)
  ultimately show ?thesis
    by (meson converse_rtranclp_into_rtranclp rtranclp_trans r_into_rtranclp)
qed

theorem exit_waits_for_build_witness:
  "\<exists>pre post. li_acts life_left = pre @ respond (sample_request Disconnect) NoBody # post \<and>
    filter (\<lambda>a. a \<in> set onFinishHook) pre = onFinishHook"
proof -
  have "li_leave life_looking = Looking" "li_build life_looking \<noteq> NoBuild" "li_process life_looking = Alive"
    "li_process life_left = Left"
    by (simp_all add: life_looking_def life_left_def life0_def)
  from exit_waits_for_build [OF life_looking_reach this(1-3) life_left_steps this(4)] show ?thesis
    by blast
qed

text \<open>
  A step that stops while the session is being left makes the process panic, also a step
  whose stop was offered before; the hook then does not run.
\<close>

theorem stop_during_disconnect_panics:
  assumes "li_process s = Alive" "li_build s = Running k" "li_breaker s = AtWork" "li_leave s = Closing"
  shows "\<exists>t. (life_step lrq drq)\<^sup>*\<^sup>* s t \<and> li_process t = Panicked \<and> li_acts t = li_acts s"
proof -
  let ?s1 = "s\<lparr>li_breaker := Offering []\<rparr>"
  let ?s2 = "?s1\<lparr>li_leave := Looking, li_closed := True\<rparr>"
  have "life_step lrq drq s ?s1"
    using assms by (intro life_step.stop)
  moreover have "life_step lrq drq ?s1 ?s2"
    using assms by (intro life_step.close_stops) simp_all
  moreover have "life_step lrq drq ?s2 (?s2\<lparr>li_process := Panicked\<rparr>)"
    using assms by (intro life_step.crash [where ids = "[]"]) simp_all
  ultimately have "(life_step lrq drq)\<^sup>*\<^sup>* s (?s2\<lparr>li_process := Panicked\<rparr>)"
    by (meson rtranclp.rtrancl_into_rtrancl rtranclp.rtrancl_refl)
  then show ?thesis
    by (rule exI [where x = "?s2\<lparr>li_process := Panicked\<rparr>", OF conjI]) simp
qed

end
