(* ===== verification/Spec2Isabelle.thy ===== *)
theory Spec2Isabelle
  imports PauseSpec SharedReader Session DapSession DapExec DebugImage Signals DapServe
    TestHelpers Reports DapTerminal DapLife
begin

text \<open>
  Verification of buildg, an interactive debugger for Dockerfile builds. buildg runs
  BuildKit inside its own process, wraps the worker so that every operation reports to a
  debug controller before its result is used, and stops the build at breakpoints in a
  shell on the terminal or in a Debug Adapter Protocol server.

  \<^bold>\<open>How the parts interact.\<close> The launcher (\<open>src/main.go\<close>) reads the options, locks a root
  directory and calls \<open>Debug\<close> (\<open>src/pkg/buildkit/client.go\<close>), which starts an embedded server
  and runs builds until one does not end by a reload. In a build, the wrapper of each
  operation registers the results of the operation and waits (\<open>controller.go\<close>); the event
  loop looks up the source locations of the operation and asks the handler (\<open>handler.go\<close>)
  whether to stop, by the breakpoints (\<open>breakpoint.go\<close>). At a stop the client's handler runs:
  the shell (\<open>src/commands.go\<close> with one file per command) or the debugger of the adapter
  (\<open>src/pkg/dap\<close>). Both can start a container on the results of the stopped step (\<open>exec.go\<close>).

  \<^bold>\<open>Theories.\<close>

  \<^item> \<open>Prelude\<close>: Go's errors and \<open>errors.Is\<close>, results with panics, 64-bit integers, \<open>strconv\<close>,
    maps as association lists, reachable states and the locale \<open>inv_system\<close> that every step
    relation below interprets. \<open>Calls\<close>: straight-line code with deferred clean-ups as programs
    on a trace of calls, and counting of resources over the trace. \<open>Cli\<close>: tables of commands
    with their flags, the behaviour of \<open>urfave/cli\<close> on them, and two sample libraries. \<open>Paths\<close>, \<open>Scanner\<close>: the
    parts of \<open>path/filepath\<close>, \<open>strings\<close> and \<open>bufio\<close> that are used. \<open>Types\<close>: shared records.
  \<^item> \<open>Breakpoints\<close> (\<open>breakpoint.go\<close>, \<open>location.go\<close>): the store, by the locale
    \<open>breakpoint_store\<close>, and the hit test: a line breakpoint is hit exactly by the ranges of its
    file that cover its line; anonymous breakpoints get fresh keys.
  \<^item> \<open>Handler\<close> (\<open>handler.go\<close>): the stop decision. \<open>Controller\<close> (\<open>controller.go\<close>): the event loop,
    the reference-counted sources as a refinement of a multiset (locale \<open>source_refs\<close>), the
    registration of results, the wrapper of an operation. \<open>Pausing\<close>: the pause protocol as
    a step relation of any number of operations with the loop; no operation runs ahead of
    its release, no channel is closed twice. \<open>PauseSpec\<close>: what the protocol promises, as a
    specification without channels that it refines (locale \<open>refines\<close>). \<open>Reports\<close>: the
    registrations of steps that run in parallel, one entry of the worker's table at a time,
    with an inductive typing of the statuses that reach the handler.
  \<^item> \<open>ExecContainer\<close> (both files \<open>exec.go\<close>): the mounts, image and process of a debug
    container, given back once; \<open>Listing\<close> (\<open>list.go\<close>), \<open>Progress\<close> (\<open>log.go\<close> and the progress
    writer and signal handler of \<open>main.go\<close>, locale \<open>gate\<close>). \<open>Signals\<close> (\<open>watchSignal\<close> of
    \<open>src/exec.go\<close> and \<open>signalHandler.start\<close>): whether the process or the session gets a signal,
    with the channels of both goroutines.
  \<^item> \<open>Shell\<close>: the prompt loop and every command; the shell is left only by a decision of the
    user, failed commands change nothing, \<open>break\<close> and \<open>continue KEY\<close> do what they say.
    \<open>SharedReader\<close>: how the terminal's input is shared between the prompt and containers.
  \<^item> \<open>Launcher\<close> (\<open>main.go\<close>): options, directories, locks and the actions; everything taken is
    given back, or left to the server of the adapter with the calls that give it back, and a
    session works only on a root of its own. \<open>Session\<close> (\<open>client.go\<close>): the
    embedded server, \<open>Prune\<close> and \<open>Du\<close>, the reload loop, the goroutines of a round, the
    in-memory listener. \<open>DebugImage\<close> (\<open>withDebug\<close> of \<open>handler.go\<close>): the solve of the debug image
    beside the event loop; the image is there at every stop.
  \<^item> \<open>DapServer\<close> (\<open>dap.go\<close>, \<open>debugger.go\<close>): every request and what is sent for it; \<open>DapSession\<close>:
    the exchange of requests and stops as a step relation; \<open>DapExec\<close> (\<open>io.go\<close>, \<open>execCommand\<close>):
    the pipes and the process of a container in the client's terminal; \<open>DapServe\<close> (\<open>Serve\<close>):
    \<open>setBreakpoints\<close> requests, each in a goroutine of its own, access by access on the store
    without a lock: harmless for a client that waits for its answers, while overlapping
    requests can end the process; \<open>DapTerminal\<close>: the command of the
    client's terminal through the command line (\<open>dapAttachContainerAction\<close> of \<open>main.go\<close>) and the
    goroutine that waits for the container; \<open>DapLife\<close>: launch, build, forwarded stops and
    disconnect, what is sent in which order and what is done before the process leaves.
  \<^item> \<open>TestHelpers\<close> (\<open>src/pkg/testutil\<close>): the shell and the server that the tests drive; the prompt
    that is awaited is the one that is printed, and the output before it is returned whole.
  \<^item> This theory: properties across the parts, from a finished operation to the shell that
    opens at it, and from the shell back to the end of the session.

  \<^bold>\<open>Conventions.\<close> Errors are values of \<open>go_err\<close> that keep the format and what it wraps;
  \<open>'a go_result\<close> adds panics. Printed output is a list of items of the model, with the
  strings of the code where a property is about them. A Go \<open>int\<close> is an \<open>int\<close> with its wrap
  written out (\<open>wrap64\<close>) where sums are formed. Code outside the repository is a parameter:
  a function from the trace of calls to the next answer (\<open>world\<close>), or a record of functions
  (\<open>libs\<close>, \<open>build_lib\<close>) for \<open>urfave/cli\<close>, \<open>shlex\<close> and BuildKit's option parsers. The map
  iteration order of Go is an argument where it can be seen. Where the code holds a mutex for
  a whole operation, the operation is one step of the relations. The store of breakpoints
  has no mutex: \<open>Breakpoints\<close> describes its operations running alone, and \<open>DapServe\<close> splits
  them into their accesses where two goroutines write it. The other plain fields that
  goroutines share (the recorded break and the launch configuration of the adapter, the
  mode of the handler) are read and written in one step.

  \<^bold>\<open>Assumptions.\<close> \<open>identity.NewID\<close> does not repeat; protobuf messages come with their
  sub-messages; the errors of BuildKit do not wrap \<open>ErrExit\<close> or \<open>ErrReload\<close>; the counter of
  breakpoints stays below \<open>2^63 - 1\<close> where a theorem says so. The reload loop may run for
  ever: \<open>debug\<close> is a partial function, and \<open>reload_loop_result\<close> says when it is defined.
  No other definition needs fuel: the loops of the program run over finite input here.

  \<^bold>\<open>Not modelled.\<close> Usage texts and flag declarations beyond the values the code reads; log
  messages; reads of the breakpoint store by the event loop while a \<open>setBreakpoints\<close> request
  writes it; the alignment done by \<open>tabwriter\<close>; the framing of DAP messages and the sockets;
  the progress display of BuildKit; \<open>src/pkg/version\<close> (two strings). Liveness that depends on the scheduler is stated as the
  existence of steps, not under a fairness assumption.
\<close>

section \<open>From the solver to the shell\<close>

lemma prepare_status_lengths:
  assumes "prepare_status sys ref_id ident st refs = (Inr info, refs')"
  shows "length (rs_input_ids info) = length (st_inputs st)" "length (rs_mount_ids info) = length (st_mounts st)"
    "rs_op info = st_op st" "rs_err info = st_err st"
    "\<exists>refs1. registerResultIDs sys ref_id (st_mounts st) refs1 = ((rs_mount_ids info, None), refs')"
proof -
  obtain ids e1 refs1 where r1: "registerResultIDs sys ref_id (st_inputs st) refs = ((ids, e1), refs1)"
    by (metis prod.exhaust)
  obtain ids2 e2 refs2 where r2: "registerResultIDs sys ref_id (st_mounts st) refs1 = ((ids2, e2), refs2)"
    by (metis prod.exhaust)
  have parts: "e1 = None" "e2 = None" "refs2 = refs'" "rs_input_ids info = ids" "rs_mount_ids info = ids2"
    "rs_op info = st_op st" "rs_err info = st_err st"
    using assms r1 r2 by (auto simp: prepare_status_def split: option.splits)
  have len: "length xs = length rs" if "registerResultIDs sys ref_id rs m = ((xs, None), m')" for rs m xs m'
    using that register_loop_ids [of sys ref_id rs "[]" m xs m'] by (simp add: registerResultIDs_def)
  show "length (rs_input_ids info) = length (st_inputs st)" "length (rs_mount_ids info) = length (st_mounts st)"
    "rs_op info = st_op st" "rs_err info = st_err st"
    "\<exists>refs1. registerResultIDs sys ref_id (st_mounts st) refs1 = ((rs_mount_ids info, None), refs')"
    using len [of "st_inputs st"] len [of "st_mounts st"] r1 r2 parts by auto
qed

text \<open>
  C2. A RUN step that succeeded or was found in the cache, once reported, carries for each of
  its mounts, in order, the identifier of the result that the solver has for it (the
  output of the mount, else its input, else none), and no input typed into the shell that
  opens at it makes the shell panic, provided that each line of it that comes to \<open>exec\<close> finds
  a terminal and that each line that comes to \<open>log\<close> asks for a length that can be made.
\<close>

theorem reported_run_step_debuggable:
  assumes run: "op_kind_of (vx_op v) = Op_Exec ex"
    and status: "st = exec_status clone exec_err v inputs (outputs, None) \<or> st = cache_status clone v inputs outputs"
    and report: "prepare_status sys ref_id ident st refs = (Inr info, refs')" and "locs \<noteq> []"
    and can: "can_run_all L (sh_input s)"
  shows "no_panic (fst (breakHandler L order info locs hits (h, s))) \<and>
    rs_mount_ids info =
      map (\<lambda>m. case mount_output clone outputs (m, mount_input clone inputs m) of
                 None \<Rightarrow> [] | Some r \<Rightarrow> ref_id (the (sys r)))
          (ex_mounts ex)"
proof
  have st: "st_op st = vx_op v" "st_inputs st = map (mount_input clone inputs) (ex_mounts ex)"
    "st_mounts st = map (\<lambda>m. mount_output clone outputs (m, mount_input clone inputs m)) (ex_mounts ex)"
    using status run by (auto simp: exec_status_def cache_status_def getResultMounts_exec)
  note info = prepare_status_lengths [OF report]
  have "mounts_registered info"
    using info st run by (simp add: mounts_registered_def)
  then show "no_panic (fst (breakHandler L order info locs hits (h, s)))"
    using shell_loop_no_panic [OF _ \<open>locs \<noteq> []\<close> can] by (auto simp: breakHandler_def Let_def split: prod.splits)
  obtain refs1 where "registerResultIDs sys ref_id (st_mounts st) refs1 = ((rs_mount_ids info, None), refs')"
    using info by blast
  then have "rs_mount_ids info = map (result_id sys ref_id) (st_mounts st)"
    using register_loop_ids [of sys ref_id "st_mounts st" "[]"] by (simp add: registerResultIDs_def)
  then show "rs_mount_ids info =
      map (\<lambda>m. case mount_output clone outputs (m, mount_input clone inputs m) of
                 None \<Rightarrow> [] | Some r \<Rightarrow> ref_id (the (sys r)))
          (ex_mounts ex)"
    by (simp add: st result_id_def)
qed

theorem reported_run_step_debuggable_witness:
  "\<exists>info refs'. prepare_status Some show_nat ''i'' (exec_status (\<lambda>r. r) (\<lambda>_. None) run_vertex [1] ([2], None)) [] =
       (Inr info, refs') \<and> rs_mount_ids info = [''2''] \<and>
     no_panic (fst (breakHandler flag_libs [] info sample_locs []
       (sample_handler, sample_shell [] [''exec ls'', ''log -n 5'', ''exit''])))"
proof -
  let ?st = "exec_status (\<lambda>r :: nat. r) (\<lambda>_. None) run_vertex [1] ([2], None)"
  obtain info refs' where report: "prepare_status Some show_nat ''i'' ?st [] = (Inr info, refs')"
    by (simp add: prepare_status_def registerResultIDs_def exec_status_def getResultMounts_def run_vertex_def
        run_op_def rootfs_mount_def mount_input_def mount_output_def)
  have run: "op_kind_of (vx_op run_vertex) = Op_Exec run_op"
    by (simp add: run_vertex_def)
  let ?s = "sample_shell [] [''exec ls'', ''log -n 5'', ''exit'']"
  have can: "can_run_all flag_libs (sh_input ?s)"
    using flag_libs_log by (simp add: sample_shell_def can_run_all_def flag_libs_split)
  have "show_nat 2 = ''2''"
    by code_simp
  then show ?thesis
    using reported_run_step_debuggable [OF run disjI1 report, of "\<lambda>r. r" "\<lambda>_. None" "[1]" "[2]" sample_locs,
        OF refl _ can] report
    by (auto simp: run_op_def rootfs_mount_def mount_output_def sample_locs_def)
qed

text \<open>
  C31. A RUN step that failed with an error that carries no mounts (its process never started)
  is reported with that error and with no identifier at all, neither of an input nor of a
  mount, and asking for a container on it, as \<open>exec\<close> does at the stop for that failure, on
  its results or on its initial state, is an index out of range before the gateway is asked.
\<close>

theorem failed_start_makes_exec_panic:
  assumes run: "op_kind_of (vx_op v) = Op_Exec ex" "ex_mounts ex \<noteq> []"
    and err: "exec_err e = None"
    and report: "prepare_status sys ref_id ident (exec_status clone exec_err v inputs (outputs, Some e)) refs =
                   (Inr info, refs')"
    and cfg: "cc_info cfg = info"
  shows "rs_err info = Some e \<and> rs_input_ids info = [] \<and> rs_mount_ids info = [] \<and>
    ExecContainer env cfg = (Panic ''index out of range'', [])"
proof -
  have "rs_input_ids info = []" "rs_mount_ids info = []" "rs_op info = vx_op v" "rs_err info = Some e"
    using prepare_status_lengths [OF report] err by (simp_all add: exec_status_def)
  then show ?thesis
    using run cfg ExecContainer_out_of_range [of cfg ex env] by (simp add: container_mount_ids_def)
qed

theorem failed_start_makes_exec_panic_witness:
  "\<exists>info refs'. prepare_status Some show_nat ''i''
       (exec_status (\<lambda>r :: nat. r) (\<lambda>_. None) run_vertex [1] ([], Some (ExtErr ''no runc''))) [] = (Inr info, refs') \<and>
     rs_mount_ids info = [] \<and>
     ExecContainer \<lparr>ee_new_container = None, ee_start = None, ee_console = True, ee_set_raw = None\<rparr>
       ((sample_config [])\<lparr>cc_info := info\<rparr>) = (Panic ''index out of range'', [])"
proof -
  let ?st = "exec_status (\<lambda>r :: nat. r) (\<lambda>_. None) run_vertex [1] ([], Some (ExtErr ''no runc''))"
  obtain info refs' where report: "prepare_status Some show_nat ''i'' ?st [] = (Inr info, refs')"
    by (simp add: prepare_status_def registerResultIDs_def exec_status_def)
  have "op_kind_of (vx_op run_vertex) = Op_Exec run_op" "ex_mounts run_op \<noteq> []"
    by (simp_all add: run_vertex_def run_op_def)
  from failed_start_makes_exec_panic [OF this refl report, of "(sample_config [])\<lparr>cc_info := info\<rparr>"] report
  show ?thesis
    by auto
qed

section \<open>From the shell to the session\<close>

text \<open>
  C3. In a stop-on-entry session the shell opens at the first step that has a location, after
  any number of steps without one and whatever the breakpoints; when it is left by \<open>exit\<close> (or
  by the end of the input) while the watching goroutine of the round still hears the event
  loop, the round and with it the session end without a reload, \<open>Debug\<close> reports success, and
  the server that was started for the session is stopped.
\<close>

theorem exit_ends_session:
  assumes cfg: "dc_stopOnEntry cfg" "\<not> dc_disableBreakpoints cfg" "handler_inv (withDebug_handler cfg)"
    and before: "\<forall>e \<in> set pre. \<exists>err. getLocation (ev_order e) (rs_vertex (ev_status e)) = Fail err"
    and step: "fst (builds n) = pre @ ev # evs" "getLocation (ev_order ev) (rs_vertex (ev_status ev)) = Ok locs" "locs \<noteq> []"
    and left: "breakHandler L order (ev_status ev) locs
        (getHitBreakpoints (h_breakpoints (withDebug_handler cfg)) (ev_status ev) locs)
        ((withDebug_handler cfg)\<lparr>h_entried := True\<rparr>, s) = (Fail ErrExit, h, s')"
    and client: "newClient os wcfg True tr = (Ok done, tr1)"
  shows "\<exists>err cw. debug (shell_client L order) builds n (cfg, s) = Some (Ok (Some err, cw)) \<and>
    fst (Debug show_duration os wcfg True timeout cleanupAll ClientFirst (Some err) tr) = Ok () \<and>
    level servers (snd (Debug show_duration os wcfg True timeout cleanupAll ClientFirst (Some err) tr)) = level servers tr"
proof -
  let ?h = "withDebug_handler cfg"
  have "stops_at ?h (ev_status ev) locs"
    using cfg step by (simp add: stops_at_def withDebug_handler_def)
  then have "Handler_handle (shell_client L order) (ev_status ev) locs (?h, s) = (Some ErrExit, h, s')"
    using cfg left by (simp add: Handler_handle_eq shell_client_def)
  then have "event_loop (shell_client L order) (fst (builds n)) (?h, s) =
      Ok (map (\<lambda>e. rs_debug_id (ev_status e)) pre, Some ErrExit, h, s')"
    using step by (simp add: event_loop_unlocated [OF before])
  then have round: "debug_round (shell_client L order) (builds n) (cfg, s) =
      Ok (Some (Wrapf ''handler error: %w'' ErrExit), round_config cfg h, s')"
    by (rule debug_round_heard)
  then have "debug (shell_client L order) builds n (cfg, s) =
      Some (Ok (Some (Wrapf ''handler error: %w'' ErrExit), round_config cfg h, s'))"
    by (subst debug_unfold) (simp add: is_reload_def Let_def)
  moreover have "fst (Debug show_duration os wcfg True timeout cleanupAll ClientFirst
      (Some (Wrapf ''handler error: %w'' ErrExit)) tr) = Ok ()"
    using client by (simp add: Debug_def bind_def deferred_def session_result_def perform_def call_def ret_def)
  moreover have "shifts servers 0 (Debug show_duration os wcfg True timeout cleanupAll ClientFirst
      (Some (Wrapf ''handler error: %w'' ErrExit)))"
    by (auto simp: Debug_def intro!: shifts_with_client shifts_perform shifts_session_result)
  ultimately show ?thesis
    by (intro exI [of _ "Wrapf ''handler error: %w'' ErrExit"]) (simp add: shifts_def)
qed

text \<open>A build whose first step has no location.\<close>

definition late_located :: build where
  "late_located = ([(sample_event ''0'' ''b'' None)\<lparr>ev_order := []\<rparr>, sample_event ''1'' ''a'' None], [], None)"

theorem exit_ends_session_witness:
  "\<exists>err cw. debug (shell_client simple_libs []) (\<lambda>_. late_located) 0
        (entry_config, sample_shell [] [''list'', ''exit'']) = Some (Ok (Some err, cw)) \<and>
     fst (Debug (\<lambda>_. []) ready_world ready_config True 0 False ClientFirst (Some err) []) = Ok ()"
proof -
  let ?ev = "sample_event ''1'' ''a'' None"
  let ?h = "withDebug_handler entry_config"
  have cfg: "dc_stopOnEntry entry_config" "\<not> dc_disableBreakpoints entry_config" "handler_inv ?h"
    by (simp_all add: entry_config_def withDebug_handler_def handler_inv_def bps_inv_def)
  let ?pre = "[(sample_event ''0'' ''b'' None)\<lparr>ev_order := []\<rparr>]"
  have before: "\<forall>e \<in> set ?pre. \<exists>err. getLocation (ev_order e) (rs_vertex (ev_status e)) = Fail err"
    by (simp add: getLocation_def)
  have build: "fst late_located = ?pre @ ?ev # []"
    by (simp add: late_located_def)
  obtain locs where locs: "getLocation (ev_order ?ev) (rs_vertex (ev_status ?ev)) = Ok locs" "locs \<noteq> []"
    and locs_eq: "locs = (case getLocation (ev_order ?ev) (rs_vertex (ev_status ?ev)) of Ok l \<Rightarrow> l | _ \<Rightarrow> [])"
    by (simp add: sample_event_def getLocation_def)
  let ?run = "breakHandler simple_libs [] (ev_status ?ev) locs (getHitBreakpoints (h_breakpoints ?h) (ev_status ?ev) locs)
        (?h\<lparr>h_entried := True\<rparr>, sample_shell [] [''list'', ''exit''])"
  have "fst ?run = Fail ErrExit"
    unfolding locs_eq by code_simp
  then have run: "?run = (Fail ErrExit, fst (snd ?run), snd (snd ?run))"
    by (metis prod.collapse)
  have client: "newClient ready_world ready_config True [] = (Ok [GracefulStop], snd (newClient ready_world ready_config True []))"
    by (simp add: newClient_def newWorker_def known_snapshotter_def go_defs ready_world_def ready_config_def)
  show ?thesis
    using exit_ends_session [where builds = "\<lambda>_. late_located" and n = 0, OF cfg before build locs run client]
    by blast
qed

end
